theory Spec2Isabelle
  imports Main "HOL-Library.Sublist"
begin

section \<open>Stored rows (the SQLAlchemy models of main.py)\<close>

text \<open>
  One record per mapped class, one field per column.  Primary keys are Python ints.
  The string columns that \<open>create_cocktail\<close> fills from optional input fields are
  \<open>string option\<close> (\<open>None\<close> is SQL NULL); the columns that the only writer always
  fills (names, foreign keys, step numbers) carry their value directly.
\<close>

record Cocktail =
  ck_id :: int
  ck_title :: string
  ck_author :: "string option"
  ck_description :: "string option"
  ck_difficulty :: "string option"
  ck_glass_type :: "string option"
  ck_cover_image :: "string option"

record Ingredient =
  ing_id :: int
  ing_name :: string

record CocktailIngredient =
  ci_id :: int
  ci_cocktail_id :: int
  ci_ingredient_id :: int
  ci_quantity :: "string option"
  ci_unit :: "string option"
  ci_notes :: "string option"

record Instruction =
  ins_id :: int
  ins_cocktail_id :: int
  ins_step_number :: int
  ins_instruction_text :: string

record Tag =
  tag_id :: int
  tag_name :: string
  tag_type :: string

record Garnish =
  gar_id :: int
  gar_name :: string

text \<open>
  The database: six tables and the two association tables \<open>cocktail_tags\<close> and
  \<open>cocktail_garnishes\<close>, whose rows are pairs (cocktail id, tag or garnish id).  The
  association tables have no key and no uniqueness constraint in the source.  Every
  table is a list in insertion order, which is also the order in which the model
  retrieves rows.
\<close>

record database =
  cocktails :: "Cocktail list"
  ingredients :: "Ingredient list"
  cocktail_ingredients :: "CocktailIngredient list"
  instructions :: "Instruction list"
  tags :: "Tag list"
  garnishes :: "Garnish list"
  cocktail_tags :: "(int \<times> int) list"
  cocktail_garnishes :: "(int \<times> int) list"

definition empty_database :: database where
  "empty_database =
     \<lparr>cocktails = [], ingredients = [], cocktail_ingredients = [], instructions = [],
      tags = [], garnishes = [], cocktail_tags = [], cocktail_garnishes = []\<rparr>"

text \<open>
  An integer primary key that the application leaves unset is assigned by the store:
  one more than the largest key of the table, 1 in an empty table.
\<close>

definition next_id :: "int list \<Rightarrow> int" where
  "next_id ids = fold max ids 0 + 1"

section \<open>Request and response documents (the Pydantic models and the dict of serialize_cocktail)\<close>

record IngredientCreate =
  ic_name :: string
  ic_quantity :: "string option"
  ic_unit :: "string option"
  ic_notes :: "string option"

record MetadataCreate =
  mc_difficulty :: "string option"
  mc_glass_type :: "string option"
  mc_garnish :: "string list option"
  mc_tags :: "string list option"
  mc_flavor_tags :: "string list option"
  mc_cover_image :: "string option"

record CocktailCreate =
  cc_title :: string
  cc_author :: "string option"
  cc_description :: "string option"
  cc_ingredients :: "IngredientCreate list"
  cc_instructions :: "string list"
  cc_metadata :: "MetadataCreate option"

record ingredient_doc =
  idoc_name :: string
  idoc_quantity :: "string option"
  idoc_unit :: "string option"
  idoc_notes :: "string option"

record metadata_doc =
  md_difficulty :: "string option"
  md_glass_type :: "string option"
  md_garnish :: "string list"
  md_tags :: "string list"
  md_flavor_tags :: "string list"
  md_cover_image :: "string option"

record document =
  doc_id :: int
  doc_title :: string
  doc_author :: "string option"
  doc_description :: "string option"
  doc_ingredients :: "ingredient_doc list"
  doc_instructions :: "string list"
  doc_metadata :: metadata_doc

text \<open>
  The errors of the three endpoints.  \<open>HTTPException\<close> is the one the source raises
  itself (status code and detail).  \<open>RequestValidationError\<close> is what the framework
  answers when the request body does not fit \<open>CocktailCreate\<close>.  \<open>AttributeError\<close> is
  the Python failure of \<open>ci.ingredient.name\<close> when \<open>ci.ingredient\<close> is \<open>None\<close>.
\<close>

datatype error =
  HTTPException int string
  | RequestValidationError
  | AttributeError

section \<open>Relationships\<close>

text \<open>
  \<open>cocktail.ingredients\<close> and \<open>cocktail.instructions\<close> are one-to-many: the child rows
  whose foreign key is the cocktail's id.  \<open>ci.ingredient\<close> is many-to-one: the
  ingredient row with that id, \<open>None\<close> when there is none.
\<close>

definition Cocktail_ingredients :: "database \<Rightarrow> int \<Rightarrow> CocktailIngredient list" where
  "Cocktail_ingredients db cid = filter (\<lambda>ci. ci_cocktail_id ci = cid) (cocktail_ingredients db)"

definition Cocktail_instructions :: "database \<Rightarrow> int \<Rightarrow> Instruction list" where
  "Cocktail_instructions db cid = filter (\<lambda>i. ins_cocktail_id i = cid) (instructions db)"

definition CocktailIngredient_ingredient :: "database \<Rightarrow> CocktailIngredient \<Rightarrow> Ingredient option" where
  "CocktailIngredient_ingredient db ci =
     find (\<lambda>i. ing_id i = ci_ingredient_id ci) (ingredients db)"

text \<open>
  \<open>cocktail.tags\<close> and \<open>cocktail.garnishes\<close> are many-to-many through an association
  table (\<open>secondary=\<close>): for every association row of the cocktail, in the order of
  the association table, the target rows with that key.  (The ORM hands out each row
  object once.  In the stored states considered below, \<open>wf_db\<close>, no association row
  occurs twice and keys are unique, so the join has no repetition to drop:
  \<open>distinct_secondary_join\<close>.)
\<close>

definition secondary_join :: "(int \<times> int) list \<Rightarrow> ('a \<Rightarrow> int) \<Rightarrow> 'a list \<Rightarrow> int \<Rightarrow> 'a list" where
  "secondary_join links pk rows cid =
     concat (map (\<lambda>(c, k). if c = cid then filter (\<lambda>r. pk r = k) rows else []) links)"

definition Cocktail_tags :: "database \<Rightarrow> int \<Rightarrow> Tag list" where
  "Cocktail_tags db cid = secondary_join (cocktail_tags db) tag_id (tags db) cid"

definition Cocktail_garnishes :: "database \<Rightarrow> int \<Rightarrow> Garnish list" where
  "Cocktail_garnishes db cid = secondary_join (cocktail_garnishes db) gar_id (garnishes db) cid"

section \<open>serialize_cocktail\<close>

definition serialize_ingredient :: "database \<Rightarrow> CocktailIngredient \<Rightarrow> ingredient_doc option" where
  "serialize_ingredient db ci =
     (case CocktailIngredient_ingredient db ci of
        None \<Rightarrow> None
      | Some i \<Rightarrow>
          Some \<lparr>idoc_name = ing_name i, idoc_quantity = ci_quantity ci,
                idoc_unit = ci_unit ci, idoc_notes = ci_notes ci\<rparr>)"

text \<open>
  The result is \<open>None\<close> exactly when some \<open>ci.ingredient\<close> is \<open>None\<close>, where the source
  raises.  Python's \<open>sorted\<close> is stable, as \<open>sort_key\<close> is.
\<close>

definition serialize_cocktail :: "database \<Rightarrow> Cocktail \<Rightarrow> document option" where
  "serialize_cocktail db cocktail =
     (case those (map (serialize_ingredient db) (Cocktail_ingredients db (ck_id cocktail))) of
        None \<Rightarrow> None
      | Some ings \<Rightarrow>
          Some \<lparr>doc_id = ck_id cocktail,
                doc_title = ck_title cocktail,
                doc_author = ck_author cocktail,
                doc_description = ck_description cocktail,
                doc_ingredients = ings,
                doc_instructions =
                  map ins_instruction_text
                    (sort_key ins_step_number (Cocktail_instructions db (ck_id cocktail))),
                doc_metadata =
                  \<lparr>md_difficulty = ck_difficulty cocktail,
                   md_glass_type = ck_glass_type cocktail,
                   md_garnish = map gar_name (Cocktail_garnishes db (ck_id cocktail)),
                   md_tags =
                     map tag_name
                       (filter (\<lambda>t. tag_type t = ''tag'') (Cocktail_tags db (ck_id cocktail))),
                   md_flavor_tags =
                     map tag_name
                       (filter (\<lambda>t. tag_type t = ''flavor_tag'')
                          (Cocktail_tags db (ck_id cocktail))),
                   md_cover_image = ck_cover_image cocktail\<rparr>\<rparr>)"

section \<open>The session\<close>

text \<open>
  \<open>create_cocktail\<close> works through an ORM session, and three things the session does
  decide what reaches the database and when:
  \<^item> \<open>db.add\<close> and \<open>collection.append\<close> change objects in memory; a \<^emph>\<open>flush\<close> writes the
    pending changes into the open transaction.  The session flushes by itself before
    every query (\<open>autoflush\<close>, on by default in \<open>sessionmaker\<close>) and at every commit.
  \<^item> \<open>db.commit()\<close> flushes, makes the transaction durable and visible to other
    sessions, and expires every loaded attribute; the next access loads it again.
  \<^item> for a many-to-many collection the flush writes association rows from the net
    change of the list: it compares the list with the copy taken at the first change
    since the last flush and inserts one row for each member that is not in that copy.

  A relationship collection of a loaded object, as the ORM keeps it in memory:
  \<open>coll_items\<close> is the Python list (\<open>None\<close> while the attribute is expired and not yet
  loaded again), \<open>coll_original\<close> the copy the ORM takes of the list at the first change
  after a flush (\<open>None\<close> when nothing changed since).  \<open>coll_added\<close> is what a flush
  writes: with two appends of a new object between two flushes it is that object twice
  (\<open>flush_two_appends\<close>), with a flush in between the second append adds nothing.
\<close>

record 'a collection =
  coll_items :: "'a list option"
  coll_original :: "'a list option"

definition expired :: "'a collection" where
  "expired = \<lparr>coll_items = None, coll_original = None\<rparr>"

definition coll_added :: "'a collection \<Rightarrow> 'a list" where
  "coll_added c =
     (case (coll_items c, coll_original c) of
        (Some cur, Some old) \<Rightarrow> filter (\<lambda>x. x \<notin> set old) cur
      | _ \<Rightarrow> [])"

text \<open>
  Reading the collection loads it when it is expired: \<open>loaded\<close> is what the
  relationship gives in the open transaction.  \<open>append\<close> reads the collection, keeps a
  copy of it when it is the first change since the last flush, and appends.
\<close>

definition coll_load :: "'a list \<Rightarrow> 'a collection \<Rightarrow> 'a list" where
  "coll_load loaded c = (case coll_items c of None \<Rightarrow> loaded | Some cur \<Rightarrow> cur)"

definition coll_append :: "'a list \<Rightarrow> 'a \<Rightarrow> 'a collection \<Rightarrow> 'a collection" where
  "coll_append loaded x c =
     (let cur = coll_load loaded c
      in \<lparr>coll_items = Some (cur @ [x]),
          coll_original = (case coll_original c of None \<Rightarrow> Some cur | Some old \<Rightarrow> Some old)\<rparr>)"

text \<open>
  The session of one request (\<open>SessionLocal()\<close>, with the defaults \<open>autoflush=True\<close> and
  \<open>expire_on_commit=True\<close>): \<open>txn\<close> is the database as the open transaction sees it,
  \<open>commits\<close> the states the session has made durable with \<open>db.commit()\<close>, oldest first
  (what other sessions can read), and \<open>obj_id\<close>, \<open>obj_garnishes\<close>, \<open>obj_tags\<close> are the
  key and the two many-to-many collections of the \<open>new_cocktail\<close> object.

  Rows given to \<open>db.add\<close> are written to \<open>txn\<close> at once, with their key.  The ORM
  writes them at the next flush, in the order they were added, and the keys it assigns
  there are the same.
\<close>

record session =
  txn :: database
  commits :: "database list"
  obj_id :: int
  obj_garnishes :: "Garnish collection"
  obj_tags :: "Tag collection"

definition begin_session :: "database \<Rightarrow> session" where
  "begin_session db =
     \<lparr>txn = db, commits = [], obj_id = 0, obj_garnishes = expired, obj_tags = expired\<rparr>"

text \<open>What is durable after the session: the last committed state, or the initial one.\<close>

definition durable :: "database \<Rightarrow> session \<Rightarrow> database" where
  "durable db s = last (db # commits s)"

definition flush :: "session \<Rightarrow> session" where
  "flush s =
     s\<lparr>txn := (txn s)
          \<lparr>cocktail_tags := cocktail_tags (txn s) @
              map (\<lambda>t. (obj_id s, tag_id t)) (coll_added (obj_tags s)),
           cocktail_garnishes := cocktail_garnishes (txn s) @
              map (\<lambda>g. (obj_id s, gar_id g)) (coll_added (obj_garnishes s))\<rparr>,
       obj_garnishes := (obj_garnishes s)\<lparr>coll_original := None\<rparr>,
       obj_tags := (obj_tags s)\<lparr>coll_original := None\<rparr>\<rparr>"

definition commit :: "session \<Rightarrow> session" where
  "commit s =
     (let s' = flush s
      in s'\<lparr>commits := commits s' @ [txn s'], obj_garnishes := expired, obj_tags := expired\<rparr>)"

text \<open>\<open>db.add(obj)\<close> for each mapped class; the argument builds the row from its key.\<close>

definition add_Cocktail :: "(int \<Rightarrow> Cocktail) \<Rightarrow> session \<Rightarrow> Cocktail \<times> session" where
  "add_Cocktail mk s =
     (let row = mk (next_id (map ck_id (cocktails (txn s))))
      in (row, s\<lparr>txn := (txn s)\<lparr>cocktails := cocktails (txn s) @ [row]\<rparr>\<rparr>))"

definition add_Ingredient :: "(int \<Rightarrow> Ingredient) \<Rightarrow> session \<Rightarrow> Ingredient \<times> session" where
  "add_Ingredient mk s =
     (let row = mk (next_id (map ing_id (ingredients (txn s))))
      in (row, s\<lparr>txn := (txn s)\<lparr>ingredients := ingredients (txn s) @ [row]\<rparr>\<rparr>))"

definition add_CocktailIngredient :: "(int \<Rightarrow> CocktailIngredient) \<Rightarrow> session \<Rightarrow> session" where
  "add_CocktailIngredient mk s =
     (let row = mk (next_id (map ci_id (cocktail_ingredients (txn s))))
      in s\<lparr>txn := (txn s)\<lparr>cocktail_ingredients := cocktail_ingredients (txn s) @ [row]\<rparr>\<rparr>)"

definition add_Instruction :: "(int \<Rightarrow> Instruction) \<Rightarrow> session \<Rightarrow> session" where
  "add_Instruction mk s =
     (let row = mk (next_id (map ins_id (instructions (txn s))))
      in s\<lparr>txn := (txn s)\<lparr>instructions := instructions (txn s) @ [row]\<rparr>\<rparr>)"

definition add_Tag :: "(int \<Rightarrow> Tag) \<Rightarrow> session \<Rightarrow> Tag \<times> session" where
  "add_Tag mk s =
     (let row = mk (next_id (map tag_id (tags (txn s))))
      in (row, s\<lparr>txn := (txn s)\<lparr>tags := tags (txn s) @ [row]\<rparr>\<rparr>))"

definition add_Garnish :: "(int \<Rightarrow> Garnish) \<Rightarrow> session \<Rightarrow> Garnish \<times> session" where
  "add_Garnish mk s =
     (let row = mk (next_id (map gar_id (garnishes (txn s))))
      in (row, s\<lparr>txn := (txn s)\<lparr>garnishes := garnishes (txn s) @ [row]\<rparr>\<rparr>))"

text \<open>
  \<open>db.query(...).filter(...).first()\<close>: the session flushes first (autoflush), then the
  first matching row of the table is returned, or \<open>None\<close>.
\<close>

definition query_Ingredient_first :: "string \<Rightarrow> session \<Rightarrow> Ingredient option \<times> session" where
  "query_Ingredient_first name s =
     (let s' = flush s in (find (\<lambda>i. ing_name i = name) (ingredients (txn s')), s'))"

definition query_Garnish_first :: "string \<Rightarrow> session \<Rightarrow> Garnish option \<times> session" where
  "query_Garnish_first name s =
     (let s' = flush s in (find (\<lambda>g. gar_name g = name) (garnishes (txn s')), s'))"

definition query_Tag_first :: "string \<Rightarrow> string \<Rightarrow> session \<Rightarrow> Tag option \<times> session" where
  "query_Tag_first name type s =
     (let s' = flush s
      in (find (\<lambda>t. tag_name t = name \<and> tag_type t = type) (tags (txn s')), s'))"

text \<open>
  \<open>new_cocktail.garnishes.append(obj)\<close> and \<open>new_cocktail.tags.append(obj)\<close>: an expired
  collection is loaded from the transaction first.
\<close>

definition garnishes_append :: "Garnish \<Rightarrow> session \<Rightarrow> session" where
  "garnishes_append g s =
     s\<lparr>obj_garnishes := coll_append (Cocktail_garnishes (txn s) (obj_id s)) g (obj_garnishes s)\<rparr>"

definition tags_append :: "Tag \<Rightarrow> session \<Rightarrow> session" where
  "tags_append t s =
     s\<lparr>obj_tags := coll_append (Cocktail_tags (txn s) (obj_id s)) t (obj_tags s)\<rparr>"

section \<open>create_cocktail\<close>

text \<open>
  The body of the loop over \<open>cocktail.ingredients\<close> (lines 193 to 209): look the
  ingredient up by name, create and commit it when there is none, then add the
  \<open>CocktailIngredient\<close> row.
\<close>

definition handle_ingredient :: "IngredientCreate \<Rightarrow> session \<Rightarrow> session" where
  "handle_ingredient ing s =
     (let (found, s1) = query_Ingredient_first (ic_name ing) s;
          (ingredient_obj, s2) =
            (case found of
               None \<Rightarrow>
                 (let (obj, s') = add_Ingredient (\<lambda>k. \<lparr>ing_id = k, ing_name = ic_name ing\<rparr>) s1
                  in (obj, commit s'))
             | Some obj \<Rightarrow> (obj, s1))
      in add_CocktailIngredient
           (\<lambda>k. \<lparr>ci_id = k, ci_cocktail_id = obj_id s2,
                 ci_ingredient_id = ing_id ingredient_obj,
                 ci_quantity = ic_quantity ing, ci_unit = ic_unit ing,
                 ci_notes = ic_notes ing\<rparr>) s2)"

definition handle_ingredients :: "IngredientCreate list \<Rightarrow> session \<Rightarrow> session" where
  "handle_ingredients ings s = fold handle_ingredient ings s"

text \<open>The loop over \<open>enumerate(cocktail.instructions)\<close> (lines 212 to 218).\<close>

definition handle_instruction :: "nat \<times> string \<Rightarrow> session \<Rightarrow> session" where
  "handle_instruction = (\<lambda>(idx, instruction_text) s.
     add_Instruction
       (\<lambda>k. \<lparr>ins_id = k, ins_cocktail_id = obj_id s, ins_step_number = int idx + 1,
             ins_instruction_text = instruction_text\<rparr>) s)"

definition handle_instructions :: "string list \<Rightarrow> session \<Rightarrow> session" where
  "handle_instructions texts s = fold handle_instruction (enumerate 0 texts) s"

text \<open>
  The body of the loop over \<open>cocktail.metadata.garnish\<close> (lines 222 to 229).  The
  source has no step that removes repeated names from the list: a repeated name is looked
  up again, finds the garnish made for its first occurrence, and that object is appended
  to \<open>new_cocktail.garnishes\<close> once more.
\<close>

definition handle_garnish :: "string \<Rightarrow> session \<Rightarrow> session" where
  "handle_garnish garnish_name s =
     (let (found, s1) = query_Garnish_first garnish_name s;
          (garnish_obj, s2) =
            (case found of
               None \<Rightarrow>
                 (let (obj, s') = add_Garnish (\<lambda>k. \<lparr>gar_id = k, gar_name = garnish_name\<rparr>) s1
                  in (obj, commit s'))
             | Some obj \<Rightarrow> (obj, s1))
      in garnishes_append garnish_obj s2)"

definition handle_garnishes :: "string list \<Rightarrow> session \<Rightarrow> session" where
  "handle_garnishes names s = fold handle_garnish names s"

text \<open>
  The loop body for \<open>cocktail.metadata.tags\<close> (lines 233 to 240, \<open>type\<close> is
  \<open>'tag'\<close>) and for \<open>cocktail.metadata.flavor_tags\<close> (lines 243 to 250, \<open>type\<close> is
  \<open>'flavor_tag'\<close>); the source writes it twice, with that string as the only difference.
\<close>

definition handle_tag :: "string \<Rightarrow> string \<Rightarrow> session \<Rightarrow> session" where
  "handle_tag type name s =
     (let (found, s1) = query_Tag_first name type s;
          (tag_obj, s2) =
            (case found of
               None \<Rightarrow>
                 (let (obj, s') =
                        add_Tag (\<lambda>k. \<lparr>tag_id = k, tag_name = name, tag_type = type\<rparr>) s1
                  in (obj, commit s'))
             | Some obj \<Rightarrow> (obj, s1))
      in tags_append tag_obj s2)"

definition handle_tags :: "string \<Rightarrow> string list \<Rightarrow> session \<Rightarrow> session" where
  "handle_tags type names s = fold (handle_tag type) names s"

text \<open>
  \<open>cocktail.metadata.f if cocktail.metadata else None\<close>, and the list a guard such as
  \<open>if cocktail.metadata and cocktail.metadata.garnish:\<close> lets its loop run over: a
  missing metadata object, a missing list and an empty list all skip the loop.
\<close>

definition metadata_field :: "(MetadataCreate \<Rightarrow> 'a option) \<Rightarrow> CocktailCreate \<Rightarrow> 'a option" where
  "metadata_field f cocktail = (case cc_metadata cocktail of None \<Rightarrow> None | Some m \<Rightarrow> f m)"

definition metadata_list :: "(MetadataCreate \<Rightarrow> string list option) \<Rightarrow> CocktailCreate \<Rightarrow> string list" where
  "metadata_list f cocktail =
     (case cc_metadata cocktail of
        None \<Rightarrow> []
      | Some m \<Rightarrow> (case f m of None \<Rightarrow> [] | Some names \<Rightarrow> names))"

text \<open>
  Lines 180 to 190: the \<open>Cocktail\<close> row is added and committed on its own, and
  \<open>db.refresh(new_cocktail)\<close> makes its key known to the object.
\<close>

definition add_new_cocktail :: "CocktailCreate \<Rightarrow> session \<Rightarrow> Cocktail \<times> session" where
  "add_new_cocktail cocktail s0 =
     (let (new_cocktail, s1) =
            add_Cocktail
              (\<lambda>k. \<lparr>ck_id = k, ck_title = cc_title cocktail, ck_author = cc_author cocktail,
                    ck_description = cc_description cocktail,
                    ck_difficulty = metadata_field mc_difficulty cocktail,
                    ck_glass_type = metadata_field mc_glass_type cocktail,
                    ck_cover_image = metadata_field mc_cover_image cocktail\<rparr>) s0
      in (new_cocktail, (commit s1)\<lparr>obj_id := ck_id new_cocktail\<rparr>))"

text \<open>
  The writes of \<open>create_cocktail\<close> (lines 180 to 253), from the session of the request
  to the session after the last \<open>db.commit()\<close>, together with the new row.
\<close>

definition create_session :: "CocktailCreate \<Rightarrow> session \<Rightarrow> Cocktail \<times> session" where
  "create_session cocktail s0 =
     (let (new_cocktail, s2) = add_new_cocktail cocktail s0;
          s3 = handle_ingredients (cc_ingredients cocktail) s2;
          s4 = handle_instructions (cc_instructions cocktail) s3;
          s5 = handle_garnishes (metadata_list mc_garnish cocktail) s4;
          s6 = handle_tags ''tag'' (metadata_list mc_tags cocktail) s5;
          s7 = handle_tags ''flavor_tag'' (metadata_list mc_flavor_tags cocktail) s6
      in (new_cocktail, commit s7))"

text \<open>
  The endpoint: the writes, then \<open>serialize_cocktail\<close> of the new row as it is read
  back after the last commit.
\<close>

definition create_cocktail :: "CocktailCreate \<Rightarrow> database \<Rightarrow> (error + document) \<times> session" where
  "create_cocktail cocktail db =
     (let (new_cocktail, s) = create_session cocktail (begin_session db)
      in (case serialize_cocktail (txn s) new_cocktail of
            None \<Rightarrow> Inl AttributeError
          | Some d \<Rightarrow> Inr d, s))"

text \<open>The database that readers see once the request is over.\<close>

definition create_db :: "CocktailCreate \<Rightarrow> database \<Rightarrow> database" where
  "create_db cocktail db = durable db (snd (create_cocktail cocktail db))"

section \<open>get_cocktails and get_cocktail\<close>

definition get_cocktails :: "database \<Rightarrow> error + document list" where
  "get_cocktails db =
     (case those (map (serialize_cocktail db) (cocktails db)) of
        None \<Rightarrow> Inl AttributeError
      | Some ds \<Rightarrow> Inr ds)"

definition get_cocktail :: "int \<Rightarrow> database \<Rightarrow> error + document" where
  "get_cocktail cocktail_id db =
     (case find (\<lambda>c. ck_id c = cocktail_id) (cocktails db) of
        None \<Rightarrow> Inl (HTTPException 404 ''Cocktail not found'')
      | Some cocktail \<Rightarrow>
          (case serialize_cocktail db cocktail of
             None \<Rightarrow> Inl AttributeError
           | Some d \<Rightarrow> Inr d))"

section \<open>The request body of POST /cocktails\<close>

text \<open>
  The endpoint declares its body as \<open>cocktail: CocktailCreate\<close>, so the framework
  builds the \<open>CocktailCreate\<close> from the request document before the function runs and
  answers with a validation error, without calling it, when the document does not fit.
  A request document is modelled with every field optional (\<open>None\<close>: the key is missing or null).
  \<open>title\<close>, \<open>ingredients\<close>, \<open>instructions\<close> and the \<open>name\<close> of an ingredient line are
  declared without \<open>Optional\<close> and are required; a field declared \<open>Optional\<close> may be
  missing.  The declaration \<open>title: str\<close> puts no bound on the length of the string.
\<close>

record request_ingredient =
  ri_name :: "string option"
  ri_quantity :: "string option"
  ri_unit :: "string option"
  ri_notes :: "string option"

record request_cocktail =
  rc_title :: "string option"
  rc_author :: "string option"
  rc_description :: "string option"
  rc_ingredients :: "request_ingredient list option"
  rc_instructions :: "string list option"
  rc_metadata :: "MetadataCreate option"

definition validate_IngredientCreate :: "request_ingredient \<Rightarrow> IngredientCreate option" where
  "validate_IngredientCreate r =
     (case ri_name r of
        None \<Rightarrow> None
      | Some name \<Rightarrow>
          Some \<lparr>ic_name = name, ic_quantity = ri_quantity r, ic_unit = ri_unit r,
                ic_notes = ri_notes r\<rparr>)"

definition validate_CocktailCreate :: "request_cocktail \<Rightarrow> CocktailCreate option" where
  "validate_CocktailCreate r =
     (case (rc_title r, rc_ingredients r, rc_instructions r) of
        (Some title, Some ings, Some instrs) \<Rightarrow>
          (case those (map validate_IngredientCreate ings) of
             None \<Rightarrow> None
           | Some ings' \<Rightarrow>
               Some \<lparr>cc_title = title, cc_author = rc_author r,
                     cc_description = rc_description r, cc_ingredients = ings',
                     cc_instructions = instrs, cc_metadata = rc_metadata r\<rparr>)
      | _ \<Rightarrow> None)"

definition post_cocktails :: "request_cocktail \<Rightarrow> database \<Rightarrow> (error + document) \<times> session" where
  "post_cocktails r db =
     (case validate_CocktailCreate r of
        None \<Rightarrow> (Inl RequestValidationError, begin_session db)
      | Some cocktail \<Rightarrow> create_cocktail cocktail db)"

section \<open>Stored states\<close>

text \<open>
  The properties of a stored state that the endpoints rely on and keep: keys are unique
  (\<open>primary_key=True\<close>), ingredient and garnish names are unique (\<open>unique=True\<close>), no two
  tags share name and type, every foreign key refers to a stored row, and no association
  row is stored twice.  The empty database has them and \<open>create_cocktail\<close> keeps them
  (\<open>wf_db_empty\<close>, \<open>wf_db_create\<close>).
\<close>

definition wf_links :: "(int \<times> int) list \<Rightarrow> int list \<Rightarrow> int list \<Rightarrow> bool" where
  "wf_links links cids kids \<longleftrightarrow>
     distinct links \<and> (\<forall>l \<in> set links. fst l \<in> set cids \<and> snd l \<in> set kids)"

definition wf_db :: "database \<Rightarrow> bool" where
  "wf_db db \<longleftrightarrow>
     distinct (map ck_id (cocktails db)) \<and>
     distinct (map ing_id (ingredients db)) \<and> distinct (map ing_name (ingredients db)) \<and>
     distinct (map gar_id (garnishes db)) \<and> distinct (map gar_name (garnishes db)) \<and>
     distinct (map tag_id (tags db)) \<and>
     distinct (map (\<lambda>t. (tag_name t, tag_type t)) (tags db)) \<and>
     distinct (map ci_id (cocktail_ingredients db)) \<and>
     distinct (map ins_id (instructions db)) \<and>
     (\<forall>ci \<in> set (cocktail_ingredients db).
        ci_cocktail_id ci \<in> set (map ck_id (cocktails db)) \<and>
        ci_ingredient_id ci \<in> set (map ing_id (ingredients db))) \<and>
     (\<forall>i \<in> set (instructions db). ins_cocktail_id i \<in> set (map ck_id (cocktails db))) \<and>
     wf_links (cocktail_tags db) (map ck_id (cocktails db)) (map tag_id (tags db)) \<and>
     wf_links (cocktail_garnishes db) (map ck_id (cocktails db)) (map gar_id (garnishes db))"

text \<open>Every table of the second database starts with the rows of the first, unchanged.\<close>

definition db_le :: "database \<Rightarrow> database \<Rightarrow> bool" where
  "db_le db db' \<longleftrightarrow>
     prefix (cocktails db) (cocktails db') \<and>
     prefix (ingredients db) (ingredients db') \<and>
     prefix (cocktail_ingredients db) (cocktail_ingredients db') \<and>
     prefix (instructions db) (instructions db') \<and>
     prefix (tags db) (tags db') \<and>
     prefix (garnishes db) (garnishes db') \<and>
     prefix (cocktail_tags db) (cocktail_tags db') \<and>
     prefix (cocktail_garnishes db) (cocktail_garnishes db')"

text \<open>
  The sessions between two statements of \<open>create_cocktail\<close>, once flushed: no change of
  a collection is waiting for a flush, a loaded collection holds the rows that its
  relationship gives in the transaction, the transaction's database is well formed and
  holds the row of \<open>new_cocktail\<close>.
\<close>

definition clean :: "session \<Rightarrow> bool" where
  "clean s \<longleftrightarrow> coll_original (obj_garnishes s) = None \<and> coll_original (obj_tags s) = None"

definition synced :: "session \<Rightarrow> bool" where
  "synced s \<longleftrightarrow>
     set (coll_load (Cocktail_garnishes (txn s) (obj_id s)) (obj_garnishes s)) =
       set (Cocktail_garnishes (txn s) (obj_id s)) \<and>
     set (coll_load (Cocktail_tags (txn s) (obj_id s)) (obj_tags s)) =
       set (Cocktail_tags (txn s) (obj_id s))"

definition session_inv :: "session \<Rightarrow> bool" where
  "session_inv s \<longleftrightarrow>
     clean s \<and> synced s \<and> wf_db (txn s) \<and> obj_id s \<in> set (map ck_id (cocktails (txn s)))"

text \<open>
  The committed states of a session form a chain: each holds the rows of the one before,
  and the transaction holds the rows of them all.
\<close>

definition chain :: "database \<Rightarrow> session \<Rightarrow> bool" where
  "chain db s \<longleftrightarrow>
     sorted_wrt db_le (db # commits s) \<and> list_all (\<lambda>x. db_le x (txn s)) (db # commits s)"

text \<open>
  A stored \<open>CocktailIngredient\<close> row carries an ingredient line of the input: it belongs
  to the cocktail, has the line's quantity, unit and notes, and refers to a stored
  ingredient with the line's name.
\<close>

definition line_row :: "database \<Rightarrow> int \<Rightarrow> IngredientCreate \<Rightarrow> CocktailIngredient \<Rightarrow> bool" where
  "line_row db cid ing row \<longleftrightarrow>
     ci_cocktail_id row = cid \<and> ci_quantity row = ic_quantity ing \<and>
     ci_unit row = ic_unit ing \<and> ci_notes row = ic_notes ing \<and>
     (\<exists>i \<in> set (ingredients db). ing_id i = ci_ingredient_id row \<and> ing_name i = ic_name ing)"

section \<open>Example inputs\<close>

definition mojito :: CocktailCreate where
  "mojito =
     \<lparr>cc_title = ''Mojito'', cc_author = Some ''Ana'', cc_description = None,
      cc_ingredients =
        [\<lparr>ic_name = ''Mint'', ic_quantity = Some ''6'', ic_unit = Some ''leaves'',
          ic_notes = Some ''muddled''\<rparr>,
         \<lparr>ic_name = ''Rum'', ic_quantity = Some ''2'', ic_unit = Some ''oz'', ic_notes = None\<rparr>,
         \<lparr>ic_name = ''Mint'', ic_quantity = Some ''1'', ic_unit = Some ''sprig'',
          ic_notes = Some ''on top''\<rparr>],
      cc_instructions = [''Muddle'', ''Shake'', ''Strain''],
      cc_metadata =
        Some \<lparr>mc_difficulty = Some ''easy'', mc_glass_type = Some ''Highball'',
              mc_garnish = Some [''Lime Wheel'', ''Lime Wheel''],
              mc_tags = Some [''Sweet'', ''Classic'', ''Sweet''],
              mc_flavor_tags = Some [''Sweet''],
              mc_cover_image = None\<rparr>\<rparr>"

definition negroni :: CocktailCreate where
  "negroni =
     \<lparr>cc_title = ''Negroni'', cc_author = None, cc_description = None,
      cc_ingredients =
        [\<lparr>ic_name = ''Gin'', ic_quantity = Some ''1'', ic_unit = Some ''oz'', ic_notes = None\<rparr>],
      cc_instructions = [''Stir''], cc_metadata = None\<rparr>"

definition untitled_request :: request_cocktail where
  "untitled_request =
     \<lparr>rc_title = Some [], rc_author = None, rc_description = None, rc_ingredients = Some [],
      rc_instructions = Some [], rc_metadata = None\<rparr>"

definition mojito_db :: database where
  "mojito_db =
     \<lparr>cocktails =
        [\<lparr>ck_id = 1, ck_title = ''Mojito'', ck_author = Some ''Ana'', ck_description = None,
          ck_difficulty = Some ''easy'', ck_glass_type = Some ''Highball'',
          ck_cover_image = None\<rparr>],
      ingredients = [\<lparr>ing_id = 1, ing_name = ''Mint''\<rparr>, \<lparr>ing_id = 2, ing_name = ''Rum''\<rparr>],
      cocktail_ingredients =
        [\<lparr>ci_id = 1, ci_cocktail_id = 1, ci_ingredient_id = 1, ci_quantity = Some ''6'',
          ci_unit = Some ''leaves'', ci_notes = Some ''muddled''\<rparr>,
         \<lparr>ci_id = 2, ci_cocktail_id = 1, ci_ingredient_id = 2, ci_quantity = Some ''2'',
          ci_unit = Some ''oz'', ci_notes = None\<rparr>,
         \<lparr>ci_id = 3, ci_cocktail_id = 1, ci_ingredient_id = 1, ci_quantity = Some ''1'',
          ci_unit = Some ''sprig'', ci_notes = Some ''on top''\<rparr>],
      instructions =
        [\<lparr>ins_id = 1, ins_cocktail_id = 1, ins_step_number = 1,
          ins_instruction_text = ''Muddle''\<rparr>,
         \<lparr>ins_id = 2, ins_cocktail_id = 1, ins_step_number = 2,
          ins_instruction_text = ''Shake''\<rparr>,
         \<lparr>ins_id = 3, ins_cocktail_id = 1, ins_step_number = 3,
          ins_instruction_text = ''Strain''\<rparr>],
      tags =
        [\<lparr>tag_id = 1, tag_name = ''Sweet'', tag_type = ''tag''\<rparr>,
         \<lparr>tag_id = 2, tag_name = ''Classic'', tag_type = ''tag''\<rparr>,
         \<lparr>tag_id = 3, tag_name = ''Sweet'', tag_type = ''flavor_tag''\<rparr>],
      garnishes = [\<lparr>gar_id = 1, gar_name = ''Lime Wheel''\<rparr>],
      cocktail_tags = [(1, 1), (1, 2), (1, 3)],
      cocktail_garnishes = [(1, 1)]\<rparr>"

section \<open>Reading: get_cocktail and get_cocktails\<close>

lemma find_distinct_key:
  "distinct (map f xs) \<Longrightarrow> x \<in> set xs \<Longrightarrow> find (\<lambda>y. f y = f x) xs = Some x"
  by (induction xs) (auto simp: image_iff)

lemma find_SomeD:
  "find P xs = Some x \<Longrightarrow> x \<in> set xs \<and> P x"
  by (induction xs) (auto split: if_splits)

lemma find_key_Some:
  "k \<in> set (map f xs) \<Longrightarrow> \<exists>x. find (\<lambda>y. f y = k) xs = Some x \<and> x \<in> set xs \<and> f x = k"
  by (induction xs) auto

lemma those_map_Some:
  "(\<And>x. x \<in> set xs \<Longrightarrow> \<exists>y. f x = Some y) \<Longrightarrow> those (map f xs) = Some (map (\<lambda>x. the (f x)) xs)"
proof (induction xs)
  case Nil
  then show ?case by simp
next
  case (Cons a xs)
  from Cons.prems obtain y where "f a = Some y" by auto
  moreover have "those (map f xs) = Some (map (\<lambda>x. the (f x)) xs)"
    using Cons by simp
  ultimately show ?case by simp
qed

lemma serialize_ingredient_Some:
  assumes "wf_db db" and "ci \<in> set (cocktail_ingredients db)"
  shows "\<exists>d. serialize_ingredient db ci = Some d"
proof -
  from assms have "ci_ingredient_id ci \<in> set (map ing_id (ingredients db))"
    by (simp add: wf_db_def)
  from find_key_Some [OF this] show ?thesis
    by (auto simp: serialize_ingredient_def CocktailIngredient_ingredient_def)
qed

lemma serialize_cocktail_Some:
  assumes "wf_db db"
  shows "\<exists>d. serialize_cocktail db c = Some d"
proof -
  have "those (map (serialize_ingredient db) (Cocktail_ingredients db (ck_id c))) =
        Some (map (\<lambda>x. the (serialize_ingredient db x)) (Cocktail_ingredients db (ck_id c)))"
    by (rule those_map_Some) (simp add: Cocktail_ingredients_def serialize_ingredient_Some [OF assms])
  then show ?thesis
    by (simp add: serialize_cocktail_def)
qed

lemma serialize_cocktail_id:
  "serialize_cocktail db c = Some d \<Longrightarrow> doc_id d = ck_id c"
  by (auto simp: serialize_cocktail_def split: option.splits)

lemma get_cocktail_stored:
  assumes "distinct (map ck_id (cocktails db))" and "c \<in> set (cocktails db)"
  shows "get_cocktail (ck_id c) db =
         (case serialize_cocktail db c of None \<Rightarrow> Inl AttributeError | Some d \<Rightarrow> Inr d)"
  using find_distinct_key [OF assms] by (simp add: get_cocktail_def)

lemma get_cocktails_Some:
  assumes "wf_db db"
  shows "get_cocktails db = Inr (map (\<lambda>c. the (serialize_cocktail db c)) (cocktails db))"
proof -
  have "those (map (serialize_cocktail db) (cocktails db)) =
        Some (map (\<lambda>c. the (serialize_cocktail db c)) (cocktails db))"
    by (rule those_map_Some) (rule serialize_cocktail_Some [OF assms])
  then show ?thesis by (simp add: get_cocktails_def)
qed



text \<open>
  Claim C10.  On a well-formed database \<open>get_cocktails\<close> returns one document per
  stored cocktail, and the document at each position is the one \<open>get_cocktail\<close>
  returns for the id of the cocktail at that position: both are \<open>serialize_cocktail\<close>
  of the same row.
\<close>

theorem list_and_get_agree:
  assumes "wf_db db"
  shows "\<exists>ds. get_cocktails db = Inr ds \<and> length ds = length (cocktails db) \<and>
           (\<forall>k < length (cocktails db).
              serialize_cocktail db (cocktails db ! k) = Some (ds ! k) \<and>
              get_cocktail (ck_id (cocktails db ! k)) db = Inr (ds ! k))"
proof -
  let ?ds = "map (\<lambda>c. the (serialize_cocktail db c)) (cocktails db)"
  from assms have dist: "distinct (map ck_id (cocktails db))" by (simp add: wf_db_def)
  have "serialize_cocktail db (cocktails db ! k) = Some (?ds ! k) \<and>
        get_cocktail (ck_id (cocktails db ! k)) db = Inr (?ds ! k)"
    if "k < length (cocktails db)" for k
  proof -
    from that have mem: "cocktails db ! k \<in> set (cocktails db)" by simp
    from serialize_cocktail_Some [OF assms]
    obtain d where "serialize_cocktail db (cocktails db ! k) = Some d" ..
    with get_cocktail_stored [OF dist mem] that show ?thesis by simp
  qed
  with get_cocktails_Some [OF assms] show ?thesis by simp
qed

theorem list_and_get_agree_witness:
  "wf_db mojito_db \<and>
   (\<exists>ds. get_cocktails mojito_db = Inr ds \<and> length ds = 1 \<and>
      get_cocktail 1 mojito_db = Inr (ds ! 0))"
proof -
  have wf: "wf_db mojito_db"
    by (simp add: wf_db_def wf_links_def mojito_db_def)
  from list_and_get_agree [OF wf] obtain ds where
    "get_cocktails mojito_db = Inr ds" and "length ds = length (cocktails mojito_db)"
    and "\<forall>k < length (cocktails mojito_db).
           serialize_cocktail mojito_db (cocktails mojito_db ! k) = Some (ds ! k) \<and>
           get_cocktail (ck_id (cocktails mojito_db ! k)) mojito_db = Inr (ds ! k)"
    by blast
  then have "get_cocktails mojito_db = Inr ds \<and> length ds = 1 \<and>
      get_cocktail 1 mojito_db = Inr (ds ! 0)"
    by (simp add: mojito_db_def)
  with wf show ?thesis by blast
qed

section \<open>Writing: the session\<close>

subsection \<open>Keys\<close>

lemma fold_max_ge: "a \<le> fold max xs (a::int)"
  by (induction xs arbitrary: a) (auto intro: order_trans [OF max.cobounded2])

lemma fold_max_mem: "x \<in> set xs \<Longrightarrow> x \<le> fold max xs (a::int)"
proof (induction xs arbitrary: a)
  case Nil
  then show ?case by simp
next
  case (Cons y ys)
  show ?case
  proof (cases "x = y")
    case True
    have "y \<le> max y a" by simp
    also have "\<dots> \<le> fold max ys (max y a)" by (rule fold_max_ge)
    finally show ?thesis using True by simp
  next
    case False
    with Cons show ?thesis by simp
  qed
qed

lemma next_id_fresh: "next_id ids \<notin> set ids"
  using fold_max_mem [of "next_id ids" ids 0] by (auto simp: next_id_def)

lemma next_id_fresh_map: "x \<in> set xs \<Longrightarrow> f x \<noteq> next_id (map f xs)"
proof
  assume "x \<in> set xs" and "f x = next_id (map f xs)"
  then have "next_id (map f xs) \<in> set (map f xs)" by (metis image_eqI set_map)
  with next_id_fresh show False by blast
qed

subsection \<open>Growth of tables\<close>

lemma db_le_refl [simp]: "db_le db db"
  by (simp add: db_le_def)

lemma db_le_trans: "db_le a b \<Longrightarrow> db_le b c \<Longrightarrow> db_le a c"
  unfolding db_le_def by (meson prefix_order.order_trans)

lemma coll_orig_None [simp]: "coll_original c = None \<Longrightarrow> c\<lparr>coll_original := None\<rparr> = c"
  by simp

lemma coll_added_None [simp]: "coll_original c = None \<Longrightarrow> coll_added c = []"
  by (simp add: coll_added_def split: option.splits)

lemma flush_clean: "clean s \<Longrightarrow> flush s = s"
  by (simp add: clean_def flush_def)

lemma clean_flush [simp]: "clean (flush s)"
  by (simp add: clean_def flush_def)

lemma flush_flush [simp]: "flush (flush s) = flush s"
  by (simp add: flush_clean)

lemma flush_fields [simp]:
  "commits (flush s) = commits s" "obj_id (flush s) = obj_id s"
  "cocktails (txn (flush s)) = cocktails (txn s)"
  "ingredients (txn (flush s)) = ingredients (txn s)"
  "cocktail_ingredients (txn (flush s)) = cocktail_ingredients (txn s)"
  "instructions (txn (flush s)) = instructions (txn s)"
  "tags (txn (flush s)) = tags (txn s)"
  "garnishes (txn (flush s)) = garnishes (txn s)"
  by (simp_all add: flush_def)

lemma db_le_flush: "db_le (txn s) (txn (flush s))"
  by (simp add: db_le_def flush_def)

lemma commit_fields [simp]:
  "obj_id (commit s) = obj_id s"
  "txn (commit s) = txn (flush s)"
  "commits (commit s) = commits s @ [txn (flush s)]"
  "obj_garnishes (commit s) = expired" "obj_tags (commit s) = expired"
  by (simp_all add: commit_def Let_def)

lemma clean_commit [simp]: "clean (commit s)"
  by (simp add: clean_def expired_def)

subsection \<open>The loop bodies, case by case\<close>

lemma handle_ingredient_cases:
  "(\<exists>obj. find (\<lambda>i. ing_name i = ic_name ing) (ingredients (txn s)) = Some obj \<and>
      handle_ingredient ing s =
        add_CocktailIngredient
          (\<lambda>k. \<lparr>ci_id = k, ci_cocktail_id = obj_id s, ci_ingredient_id = ing_id obj,
                ci_quantity = ic_quantity ing, ci_unit = ic_unit ing,
                ci_notes = ic_notes ing\<rparr>) (flush s)) \<or>
   (find (\<lambda>i. ing_name i = ic_name ing) (ingredients (txn s)) = None \<and>
      handle_ingredient ing s =
        add_CocktailIngredient
          (\<lambda>k. \<lparr>ci_id = k, ci_cocktail_id = obj_id s,
                ci_ingredient_id = next_id (map ing_id (ingredients (txn s))),
                ci_quantity = ic_quantity ing, ci_unit = ic_unit ing,
                ci_notes = ic_notes ing\<rparr>)
          (commit (snd (add_Ingredient (\<lambda>k. \<lparr>ing_id = k, ing_name = ic_name ing\<rparr>) (flush s)))))"
  by (cases "find (\<lambda>i. ing_name i = ic_name ing) (ingredients (txn s))")
     (simp_all add: handle_ingredient_def query_Ingredient_first_def add_Ingredient_def Let_def)

lemma handle_garnish_cases:
  "(\<exists>obj. find (\<lambda>g. gar_name g = n) (garnishes (txn s)) = Some obj \<and>
      handle_garnish n s = garnishes_append obj (flush s)) \<or>
   (find (\<lambda>g. gar_name g = n) (garnishes (txn s)) = None \<and>
      handle_garnish n s =
        garnishes_append \<lparr>gar_id = next_id (map gar_id (garnishes (txn s))), gar_name = n\<rparr>
          (commit (snd (add_Garnish (\<lambda>k. \<lparr>gar_id = k, gar_name = n\<rparr>) (flush s)))))"
  by (cases "find (\<lambda>g. gar_name g = n) (garnishes (txn s))")
     (simp_all add: handle_garnish_def query_Garnish_first_def add_Garnish_def Let_def)

lemma handle_tag_cases:
  "(\<exists>obj. find (\<lambda>t. tag_name t = n \<and> tag_type t = ty) (tags (txn s)) = Some obj \<and>
      handle_tag ty n s = tags_append obj (flush s)) \<or>
   (find (\<lambda>t. tag_name t = n \<and> tag_type t = ty) (tags (txn s)) = None \<and>
      handle_tag ty n s =
        tags_append \<lparr>tag_id = next_id (map tag_id (tags (txn s))), tag_name = n, tag_type = ty\<rparr>
          (commit (snd (add_Tag (\<lambda>k. \<lparr>tag_id = k, tag_name = n, tag_type = ty\<rparr>) (flush s)))))"
  by (cases "find (\<lambda>t. tag_name t = n \<and> tag_type t = ty) (tags (txn s))")
     (simp_all add: handle_tag_def query_Tag_first_def add_Tag_def Let_def)

subsection \<open>Rows are only ever added\<close>

lemma db_le_add:
  "db_le (txn s) (txn (snd (add_Cocktail mc s)))"
  "db_le (txn s) (txn (snd (add_Ingredient mi s)))"
  "db_le (txn s) (txn (add_CocktailIngredient mci s))"
  "db_le (txn s) (txn (add_Instruction mins s))"
  "db_le (txn s) (txn (snd (add_Tag mt s)))"
  "db_le (txn s) (txn (snd (add_Garnish mg s)))"
  by (simp_all add: db_le_def add_Cocktail_def add_Ingredient_def add_CocktailIngredient_def
      add_Instruction_def add_Tag_def add_Garnish_def Let_def)

lemma add_commits [simp]:
  "commits (snd (add_Cocktail mc s)) = commits s"
  "commits (snd (add_Ingredient mi s)) = commits s"
  "commits (add_CocktailIngredient mci s) = commits s"
  "commits (add_Instruction mins s) = commits s"
  "commits (snd (add_Tag mt s)) = commits s"
  "commits (snd (add_Garnish mg s)) = commits s"
  by (simp_all add: add_Cocktail_def add_Ingredient_def add_CocktailIngredient_def
      add_Instruction_def add_Tag_def add_Garnish_def Let_def)

lemma append_fields [simp]:
  "txn (garnishes_append g s) = txn s" "commits (garnishes_append g s) = commits s"
  "obj_id (garnishes_append g s) = obj_id s" "obj_tags (garnishes_append g s) = obj_tags s"
  "txn (tags_append t s) = txn s" "commits (tags_append t s) = commits s"
  "obj_id (tags_append t s) = obj_id s" "obj_garnishes (tags_append t s) = obj_garnishes s"
  by (simp_all add: garnishes_append_def tags_append_def)

lemma chain_begin: "chain db (begin_session db)"
  by (simp add: chain_def begin_session_def)

lemma chain_grow:
  assumes "chain db s" and "db_le (txn s) (txn s')" and "commits s' = commits s"
  shows "chain db s'"
  using assms unfolding chain_def list_all_iff by (auto intro: db_le_trans)

lemma chain_flush: "chain db s \<Longrightarrow> chain db (flush s)"
  by (rule chain_grow) (simp_all add: db_le_flush)

lemma chain_commit:
  assumes "chain db s"
  shows "chain db (commit s)"
proof -
  from chain_flush [OF assms] have c: "chain db (flush s)" .
  then have "sorted_wrt db_le ((db # commits s) @ [txn (flush s)])"
    unfolding chain_def sorted_wrt_append list_all_iff by simp
  moreover from c have "list_all (\<lambda>x. db_le x (txn (flush s))) ((db # commits s) @ [txn (flush s)])"
    unfolding chain_def by simp
  ultimately show ?thesis by (simp add: chain_def)
qed

lemma chain_append:
  "chain db s \<Longrightarrow> chain db (garnishes_append g s)"
  "chain db s \<Longrightarrow> chain db (tags_append t s)"
  by (simp_all add: chain_def)

lemma chain_handle_ingredient: "chain db s \<Longrightarrow> chain db (handle_ingredient ing s)"
  using handle_ingredient_cases [of ing s]
  by (auto intro!: chain_grow [OF _ db_le_add(3)] chain_commit chain_grow [OF _ db_le_add(2)]
      chain_flush)

lemma chain_handle_instruction: "chain db s \<Longrightarrow> chain db (handle_instruction p s)"
  by (cases p) (auto simp: handle_instruction_def intro!: chain_grow [OF _ db_le_add(4)])

lemma chain_handle_garnish: "chain db s \<Longrightarrow> chain db (handle_garnish n s)"
  using handle_garnish_cases [of n s]
  by (auto intro!: chain_append chain_commit chain_grow [OF _ db_le_add(6)] chain_flush)

lemma chain_handle_tag: "chain db s \<Longrightarrow> chain db (handle_tag ty n s)"
  using handle_tag_cases [of n ty s]
  by (auto intro!: chain_append chain_commit chain_grow [OF _ db_le_add(5)] chain_flush)

lemma chain_fold:
  assumes "\<And>x s. chain db s \<Longrightarrow> chain db (f x s)"
  shows "chain db s \<Longrightarrow> chain db (fold f xs s)"
  by (induction xs arbitrary: s) (simp_all add: assms)

subsection \<open>The commits of a request\<close>

lemma commits_handle_ingredient: "prefix (commits s) (commits (handle_ingredient ing s))"
  using handle_ingredient_cases [of ing s] by auto

lemma commits_handle_instruction: "prefix (commits s) (commits (handle_instruction p s))"
  by (cases p) (simp add: handle_instruction_def)

lemma commits_handle_garnish: "prefix (commits s) (commits (handle_garnish n s))"
  using handle_garnish_cases [of n s] by auto

lemma commits_handle_tag: "prefix (commits s) (commits (handle_tag ty n s))"
  using handle_tag_cases [of n ty s] by auto

lemma commits_fold:
  assumes "\<And>x s. prefix (commits s) (commits (f x s))"
  shows "prefix (commits s) (commits (fold f xs s))"
proof (induction xs arbitrary: s)
  case Nil
  show ?case by simp
next
  case (Cons x xs)
  have "prefix (commits s) (commits (f x s))" by (rule assms)
  also have "prefix \<dots> (commits (fold f xs (f x s)))" by (rule Cons.IH)
  finally show ?case by simp
qed

lemma snd_add_new_cocktail_begin:
  "snd (add_new_cocktail c (begin_session db)) =
     \<lparr>txn = db\<lparr>cocktails := cocktails db @ [fst (add_new_cocktail c (begin_session db))]\<rparr>,
      commits = [db\<lparr>cocktails := cocktails db @ [fst (add_new_cocktail c (begin_session db))]\<rparr>],
      obj_id = ck_id (fst (add_new_cocktail c (begin_session db))),
      obj_garnishes = expired, obj_tags = expired\<rparr>"
  by (simp add: add_new_cocktail_def add_Cocktail_def begin_session_def commit_def flush_def
      Let_def expired_def coll_added_def)

lemma fst_add_new_cocktail:
  "fst (add_new_cocktail c s) =
     \<lparr>ck_id = next_id (map ck_id (cocktails (txn s))), ck_title = cc_title c,
      ck_author = cc_author c, ck_description = cc_description c,
      ck_difficulty = metadata_field mc_difficulty c,
      ck_glass_type = metadata_field mc_glass_type c,
      ck_cover_image = metadata_field mc_cover_image c\<rparr>"
  by (simp add: add_new_cocktail_def add_Cocktail_def Let_def)

lemma create_session_eq:
  "create_session c s0 =
     (fst (add_new_cocktail c s0),
      commit (handle_tags ''flavor_tag'' (metadata_list mc_flavor_tags c)
        (handle_tags ''tag'' (metadata_list mc_tags c)
          (handle_garnishes (metadata_list mc_garnish c)
            (handle_instructions (cc_instructions c)
              (handle_ingredients (cc_ingredients c) (snd (add_new_cocktail c s0))))))))"
  by (simp add: create_session_def Let_def split_beta)

lemma chain_add_new_cocktail: "chain db (snd (add_new_cocktail c (begin_session db)))"
  by (simp add: snd_add_new_cocktail_begin chain_def db_le_def)

lemma chain_create_session: "chain db (snd (create_session c (begin_session db)))"
  unfolding create_session_eq snd_conv handle_tags_def handle_garnishes_def
    handle_instructions_def handle_ingredients_def
  by (intro chain_commit chain_fold chain_handle_tag chain_handle_garnish
      chain_handle_instruction chain_handle_ingredient chain_add_new_cocktail)

lemma commits_create_session:
  "prefix (commits (snd (add_new_cocktail c s0))) (commits (snd (create_session c s0)))"
proof -
  let ?s2 = "snd (add_new_cocktail c s0)"
  let ?s3 = "handle_ingredients (cc_ingredients c) ?s2"
  let ?s4 = "handle_instructions (cc_instructions c) ?s3"
  let ?s5 = "handle_garnishes (metadata_list mc_garnish c) ?s4"
  let ?s6 = "handle_tags ''tag'' (metadata_list mc_tags c) ?s5"
  let ?s7 = "handle_tags ''flavor_tag'' (metadata_list mc_flavor_tags c) ?s6"
  have "prefix (commits ?s2) (commits ?s3)"
    unfolding handle_ingredients_def by (rule commits_fold) (rule commits_handle_ingredient)
  also have "prefix \<dots> (commits ?s4)"
    unfolding handle_instructions_def by (rule commits_fold) (rule commits_handle_instruction)
  also have "prefix \<dots> (commits ?s5)"
    unfolding handle_garnishes_def by (rule commits_fold) (rule commits_handle_garnish)
  also have "prefix \<dots> (commits ?s6)"
    unfolding handle_tags_def by (rule commits_fold) (rule commits_handle_tag)
  also have "prefix \<dots> (commits ?s7)"
    unfolding handle_tags_def by (rule commits_fold) (rule commits_handle_tag)
  also have "prefix \<dots> (commits (commit ?s7))" by simp
  finally show ?thesis by (simp add: create_session_eq)
qed

subsection \<open>Well-formed states under the writes\<close>

lemma next_id_fresh_image [simp]: "next_id (map f xs) \<notin> f ` set xs"
  using next_id_fresh [of "map f xs"] by simp

lemma coll_load_expired [simp]: "coll_load l expired = l"
  by (simp add: coll_load_def expired_def)

lemma session_inv_flush: "session_inv s \<Longrightarrow> flush s = s"
  by (simp add: session_inv_def flush_clean)

lemma wf_db_add_cocktail:
  assumes "wf_db db" and "ck_id row \<notin> set (map ck_id (cocktails db))"
  shows "wf_db (db\<lparr>cocktails := cocktails db @ [row]\<rparr>)"
  using assms by (auto simp: wf_db_def wf_links_def)

lemma wf_db_add_ingredient_line:
  assumes "wf_db db" and "i \<in> set (ingredients db)" and "ci_ingredient_id row = ing_id i"
    and "ci_cocktail_id row \<in> set (map ck_id (cocktails db))"
    and "ci_id row \<notin> set (map ci_id (cocktail_ingredients db))"
  shows "wf_db (db\<lparr>cocktail_ingredients := cocktail_ingredients db @ [row]\<rparr>)"
  using assms by (auto simp: wf_db_def)

lemma wf_db_add_ingredient:
  assumes "wf_db db" and "ing_id i \<notin> set (map ing_id (ingredients db))"
    and "ing_name i \<notin> set (map ing_name (ingredients db))"
  shows "wf_db (db\<lparr>ingredients := ingredients db @ [i]\<rparr>)"
  using assms by (auto simp: wf_db_def)

lemma wf_db_add_instruction:
  assumes "wf_db db" and "ins_cocktail_id row \<in> set (map ck_id (cocktails db))"
    and "ins_id row \<notin> set (map ins_id (instructions db))"
  shows "wf_db (db\<lparr>instructions := instructions db @ [row]\<rparr>)"
  using assms by (auto simp: wf_db_def)

lemma session_inv_add_line:
  assumes "session_inv s" and "i \<in> set (ingredients (txn s))"
  shows "session_inv
           (add_CocktailIngredient
              (\<lambda>k. \<lparr>ci_id = k, ci_cocktail_id = obj_id s, ci_ingredient_id = ing_id i,
                    ci_quantity = q, ci_unit = u, ci_notes = n\<rparr>) s)"
proof -
  let ?row = "\<lparr>ci_id = next_id (map ci_id (cocktail_ingredients (txn s))),
               ci_cocktail_id = obj_id s, ci_ingredient_id = ing_id i,
               ci_quantity = q, ci_unit = u, ci_notes = n\<rparr>"
  from assms have "wf_db ((txn s)\<lparr>cocktail_ingredients := cocktail_ingredients (txn s) @ [?row]\<rparr>)"
    by (intro wf_db_add_ingredient_line [where i = i]) (simp_all add: session_inv_def)
  with assms(1) show ?thesis
    by (simp add: session_inv_def add_CocktailIngredient_def Let_def clean_def synced_def
        Cocktail_garnishes_def Cocktail_tags_def)
qed

lemma session_inv_add_ingredient:
  assumes "session_inv s" and "find (\<lambda>i. ing_name i = n) (ingredients (txn s)) = None"
  shows "session_inv (commit (snd (add_Ingredient (\<lambda>k. \<lparr>ing_id = k, ing_name = n\<rparr>) s)))"
proof -
  let ?i = "\<lparr>ing_id = next_id (map ing_id (ingredients (txn s))), ing_name = n\<rparr>"
  let ?s = "snd (add_Ingredient (\<lambda>k. \<lparr>ing_id = k, ing_name = n\<rparr>) s)"
  have s: "?s = s\<lparr>txn := (txn s)\<lparr>ingredients := ingredients (txn s) @ [?i]\<rparr>\<rparr>"
    by (simp add: add_Ingredient_def Let_def)
  from assms(2) have "n \<notin> set (map ing_name (ingredients (txn s)))"
    by (auto simp: find_None_iff)
  with assms(1) have wf: "wf_db ((txn s)\<lparr>ingredients := ingredients (txn s) @ [?i]\<rparr>)"
    by (intro wf_db_add_ingredient) (simp_all add: session_inv_def)
  from assms(1) have "clean ?s" by (simp add: s session_inv_def clean_def)
  then have "flush ?s = ?s" by (rule flush_clean)
  with wf assms(1) show ?thesis
    by (simp add: session_inv_def synced_def s)
qed

subsection \<open>The fields after an add\<close>

lemma add_Cocktail_simps [simp]:
  "fst (add_Cocktail mk s) = mk (next_id (map ck_id (cocktails (txn s))))"
  "txn (snd (add_Cocktail mk s)) =
     (txn s)\<lparr>cocktails := cocktails (txn s) @ [mk (next_id (map ck_id (cocktails (txn s))))]\<rparr>"
  "obj_id (snd (add_Cocktail mk s)) = obj_id s"
  "obj_garnishes (snd (add_Cocktail mk s)) = obj_garnishes s"
  "obj_tags (snd (add_Cocktail mk s)) = obj_tags s"
  by (simp_all add: add_Cocktail_def Let_def)

lemma add_Ingredient_simps [simp]:
  "fst (add_Ingredient mk s) = mk (next_id (map ing_id (ingredients (txn s))))"
  "txn (snd (add_Ingredient mk s)) =
     (txn s)\<lparr>ingredients := ingredients (txn s) @ [mk (next_id (map ing_id (ingredients (txn s))))]\<rparr>"
  "obj_id (snd (add_Ingredient mk s)) = obj_id s"
  "obj_garnishes (snd (add_Ingredient mk s)) = obj_garnishes s"
  "obj_tags (snd (add_Ingredient mk s)) = obj_tags s"
  by (simp_all add: add_Ingredient_def Let_def)

lemma add_Tag_simps [simp]:
  "fst (add_Tag mk s) = mk (next_id (map tag_id (tags (txn s))))"
  "txn (snd (add_Tag mk s)) =
     (txn s)\<lparr>tags := tags (txn s) @ [mk (next_id (map tag_id (tags (txn s))))]\<rparr>"
  "obj_id (snd (add_Tag mk s)) = obj_id s"
  "obj_garnishes (snd (add_Tag mk s)) = obj_garnishes s"
  "obj_tags (snd (add_Tag mk s)) = obj_tags s"
  by (simp_all add: add_Tag_def Let_def)

lemma add_Garnish_simps [simp]:
  "fst (add_Garnish mk s) = mk (next_id (map gar_id (garnishes (txn s))))"
  "txn (snd (add_Garnish mk s)) =
     (txn s)\<lparr>garnishes := garnishes (txn s) @ [mk (next_id (map gar_id (garnishes (txn s))))]\<rparr>"
  "obj_id (snd (add_Garnish mk s)) = obj_id s"
  "obj_garnishes (snd (add_Garnish mk s)) = obj_garnishes s"
  "obj_tags (snd (add_Garnish mk s)) = obj_tags s"
  by (simp_all add: add_Garnish_def Let_def)

lemma add_CocktailIngredient_simps [simp]:
  "txn (add_CocktailIngredient mk s) =
     (txn s)\<lparr>cocktail_ingredients := cocktail_ingredients (txn s) @
        [mk (next_id (map ci_id (cocktail_ingredients (txn s))))]\<rparr>"
  "obj_id (add_CocktailIngredient mk s) = obj_id s"
  "obj_garnishes (add_CocktailIngredient mk s) = obj_garnishes s"
  "obj_tags (add_CocktailIngredient mk s) = obj_tags s"
  by (simp_all add: add_CocktailIngredient_def Let_def)

lemma add_Instruction_simps [simp]:
  "txn (add_Instruction mk s) =
     (txn s)\<lparr>instructions := instructions (txn s) @
        [mk (next_id (map ins_id (instructions (txn s))))]\<rparr>"
  "obj_id (add_Instruction mk s) = obj_id s"
  "obj_garnishes (add_Instruction mk s) = obj_garnishes s"
  "obj_tags (add_Instruction mk s) = obj_tags s"
  by (simp_all add: add_Instruction_def Let_def)

lemma txn_flush_clean [simp]: "clean s \<Longrightarrow> txn (flush s) = txn s"
  by (simp add: flush_clean)

lemma clean_add [simp]:
  "clean (snd (add_Cocktail mc s)) = clean s"
  "clean (snd (add_Ingredient mi s)) = clean s"
  "clean (add_CocktailIngredient mci s) = clean s"
  "clean (add_Instruction mins s) = clean s"
  "clean (snd (add_Tag mt s)) = clean s"
  "clean (snd (add_Garnish mg s)) = clean s"
  by (simp_all add: clean_def)

subsection \<open>The ingredient lines\<close>

lemma line_row_mono:
  "line_row db cid ing row \<Longrightarrow> set (ingredients db) \<subseteq> set (ingredients db') \<Longrightarrow>
   line_row db' cid ing row"
  by (auto simp: line_row_def)

lemma handle_ingredient_frame [simp]:
  "obj_id (handle_ingredient ing s) = obj_id s"
  "cocktails (txn (handle_ingredient ing s)) = cocktails (txn s)"
  "instructions (txn (handle_ingredient ing s)) = instructions (txn s)"
  "tags (txn (handle_ingredient ing s)) = tags (txn s)"
  "garnishes (txn (handle_ingredient ing s)) = garnishes (txn s)"
  using handle_ingredient_cases [of ing s]
  by (auto simp: add_CocktailIngredient_def add_Ingredient_def Let_def)

lemma handle_ingredient_links:
  assumes "clean s"
  shows "cocktail_tags (txn (handle_ingredient ing s)) = cocktail_tags (txn s)"
    and "cocktail_garnishes (txn (handle_ingredient ing s)) = cocktail_garnishes (txn s)"
  using handle_ingredient_cases [of ing s] assms
  by (auto simp: add_CocktailIngredient_def add_Ingredient_def Let_def flush_clean clean_def)

lemma handle_ingredient_step:
  assumes "session_inv s"
  shows "session_inv (handle_ingredient ing s)"
    and "prefix (ingredients (txn s)) (ingredients (txn (handle_ingredient ing s)))"
    and "\<exists>row. cocktail_ingredients (txn (handle_ingredient ing s)) =
                  cocktail_ingredients (txn s) @ [row] \<and>
               line_row (txn (handle_ingredient ing s)) (obj_id s) ing row"
proof -
  let ?P = "\<lambda>s'. session_inv s' \<and> prefix (ingredients (txn s)) (ingredients (txn s')) \<and>
     (\<exists>row. cocktail_ingredients (txn s') = cocktail_ingredients (txn s) @ [row] \<and>
            line_row (txn s') (obj_id s) ing row)"
  have fl: "flush s = s" using assms by (rule session_inv_flush)
  have "?P (handle_ingredient ing s)"
  proof (cases "find (\<lambda>i. ing_name i = ic_name ing) (ingredients (txn s))")
    case (Some obj)
    then have mem: "obj \<in> set (ingredients (txn s))" and nm: "ing_name obj = ic_name ing"
      by (auto dest: find_SomeD)
    let ?mk = "\<lambda>k. \<lparr>ci_id = k, ci_cocktail_id = obj_id s, ci_ingredient_id = ing_id obj,
                ci_quantity = ic_quantity ing, ci_unit = ic_unit ing,
                ci_notes = ic_notes ing\<rparr>"
    from Some handle_ingredient_cases [of ing s] fl
    have eq: "handle_ingredient ing s = add_CocktailIngredient ?mk s" by auto
    have "session_inv (add_CocktailIngredient ?mk s)"
      using assms mem by (rule session_inv_add_line)
    moreover have "line_row (txn (add_CocktailIngredient ?mk s)) (obj_id s) ing
        (?mk (next_id (map ci_id (cocktail_ingredients (txn s)))))"
      using mem nm by (auto simp: line_row_def add_CocktailIngredient_def Let_def)
    ultimately show ?thesis
      unfolding eq by (simp add: add_CocktailIngredient_def Let_def)
  next
    case None
    let ?i = "\<lparr>ing_id = next_id (map ing_id (ingredients (txn s))), ing_name = ic_name ing\<rparr>"
    let ?s1 = "commit (snd (add_Ingredient (\<lambda>k. \<lparr>ing_id = k, ing_name = ic_name ing\<rparr>) s))"
    let ?mk = "\<lambda>k. \<lparr>ci_id = k, ci_cocktail_id = obj_id ?s1, ci_ingredient_id = ing_id ?i,
                ci_quantity = ic_quantity ing, ci_unit = ic_unit ing,
                ci_notes = ic_notes ing\<rparr>"
    from assms have cl: "clean s" by (simp add: session_inv_def)
    have inv1: "session_inv ?s1" using assms None by (rule session_inv_add_ingredient)
    from None handle_ingredient_cases [of ing s] fl
    have eq: "handle_ingredient ing s = add_CocktailIngredient ?mk ?s1"
      by auto
    have mem: "?i \<in> set (ingredients (txn ?s1))" using cl by simp
    have "session_inv (add_CocktailIngredient ?mk ?s1)"
      using inv1 mem by (rule session_inv_add_line)
    moreover have "line_row (txn (add_CocktailIngredient ?mk ?s1)) (obj_id s) ing
        (?mk (next_id (map ci_id (cocktail_ingredients (txn s)))))"
      using cl by (simp add: line_row_def)
    ultimately show ?thesis
      unfolding eq using cl by simp
  qed
  then show "session_inv (handle_ingredient ing s)"
    and "prefix (ingredients (txn s)) (ingredients (txn (handle_ingredient ing s)))"
    and "\<exists>row. cocktail_ingredients (txn (handle_ingredient ing s)) =
                  cocktail_ingredients (txn s) @ [row] \<and>
               line_row (txn (handle_ingredient ing s)) (obj_id s) ing row"
    by blast+
qed

lemma handle_ingredients_frame [simp]:
  "obj_id (handle_ingredients ings s) = obj_id s"
  "cocktails (txn (handle_ingredients ings s)) = cocktails (txn s)"
  "instructions (txn (handle_ingredients ings s)) = instructions (txn s)"
  "tags (txn (handle_ingredients ings s)) = tags (txn s)"
  "garnishes (txn (handle_ingredients ings s)) = garnishes (txn s)"
  unfolding handle_ingredients_def by (induction ings arbitrary: s; simp)+

lemma handle_ingredients_loop:
  assumes "session_inv s"
  shows "session_inv (handle_ingredients ings s) \<and>
         cocktail_tags (txn (handle_ingredients ings s)) = cocktail_tags (txn s) \<and>
         cocktail_garnishes (txn (handle_ingredients ings s)) = cocktail_garnishes (txn s) \<and>
         prefix (ingredients (txn s)) (ingredients (txn (handle_ingredients ings s))) \<and>
         (\<exists>rows. cocktail_ingredients (txn (handle_ingredients ings s)) =
                   cocktail_ingredients (txn s) @ rows \<and>
                 list_all2 (line_row (txn (handle_ingredients ings s)) (obj_id s)) ings rows)"
  using assms
proof (induction ings arbitrary: s)
  case Nil
  then show ?case by (simp add: handle_ingredients_def)
next
  case (Cons ing ings)
  let ?s1 = "handle_ingredient ing s"
  let ?s' = "handle_ingredients ings ?s1"
  have eq: "handle_ingredients (ing # ings) s = ?s'" by (simp add: handle_ingredients_def)
  from Cons.prems have cl: "clean s" by (simp add: session_inv_def)
  note st = handle_ingredient_step [OF Cons.prems, of ing]
  from st(3) obtain row where row: "cocktail_ingredients (txn ?s1) = cocktail_ingredients (txn s) @ [row]"
    and lr: "line_row (txn ?s1) (obj_id s) ing row" by blast
  from Cons.IH [OF st(1)] obtain rows where
    inv: "session_inv ?s'"
    and ct: "cocktail_tags (txn ?s') = cocktail_tags (txn ?s1)"
    and cg: "cocktail_garnishes (txn ?s') = cocktail_garnishes (txn ?s1)"
    and pre: "prefix (ingredients (txn ?s1)) (ingredients (txn ?s'))"
    and rows: "cocktail_ingredients (txn ?s') = cocktail_ingredients (txn ?s1) @ rows"
    and all: "list_all2 (line_row (txn ?s') (obj_id ?s1)) ings rows"
    by blast
  from pre have "set (ingredients (txn ?s1)) \<subseteq> set (ingredients (txn ?s'))"
    by (rule set_mono_prefix)
  with lr have lr': "line_row (txn ?s') (obj_id s) ing row" by (rule line_row_mono)
  have "prefix (ingredients (txn s)) (ingredients (txn ?s'))"
    using st(2) pre by (rule prefix_order.order_trans)
  moreover have "cocktail_ingredients (txn ?s') = cocktail_ingredients (txn s) @ (row # rows)"
    by (simp add: rows row)
  moreover have "list_all2 (line_row (txn ?s') (obj_id s)) (ing # ings) (row # rows)"
    using lr' all by simp
  ultimately show ?case
    unfolding eq using inv ct cg handle_ingredient_links [OF cl, of ing] by metis
qed

subsection \<open>The steps\<close>

lemma handle_instruction_frame [simp]:
  "obj_id (handle_instruction p s) = obj_id s"
  "obj_garnishes (handle_instruction p s) = obj_garnishes s"
  "obj_tags (handle_instruction p s) = obj_tags s"
  "cocktails (txn (handle_instruction p s)) = cocktails (txn s)"
  "ingredients (txn (handle_instruction p s)) = ingredients (txn s)"
  "cocktail_ingredients (txn (handle_instruction p s)) = cocktail_ingredients (txn s)"
  "tags (txn (handle_instruction p s)) = tags (txn s)"
  "garnishes (txn (handle_instruction p s)) = garnishes (txn s)"
  "cocktail_tags (txn (handle_instruction p s)) = cocktail_tags (txn s)"
  "cocktail_garnishes (txn (handle_instruction p s)) = cocktail_garnishes (txn s)"
  by (cases p; simp add: handle_instruction_def)+

lemma handle_instruction_rows:
  "instructions (txn (handle_instruction (idx, tx) s)) =
     instructions (txn s) @
       [\<lparr>ins_id = next_id (map ins_id (instructions (txn s))), ins_cocktail_id = obj_id s,
         ins_step_number = int idx + 1, ins_instruction_text = tx\<rparr>]"
  by (simp add: handle_instruction_def)

lemma session_inv_handle_instruction:
  assumes "session_inv s"
  shows "session_inv (handle_instruction p s)"
proof -
  obtain idx tx where p: "p = (idx, tx)" by (cases p)
  let ?row = "\<lparr>ins_id = next_id (map ins_id (instructions (txn s))), ins_cocktail_id = obj_id s,
         ins_step_number = int idx + 1, ins_instruction_text = tx\<rparr>"
  from assms have "wf_db ((txn s)\<lparr>instructions := instructions (txn s) @ [?row]\<rparr>)"
    by (intro wf_db_add_instruction) (simp_all add: session_inv_def)
  with assms show ?thesis
    by (simp add: p session_inv_def handle_instruction_def clean_def synced_def
        Cocktail_garnishes_def Cocktail_tags_def)
qed

lemma fold_handle_instruction_frame [simp]:
  "obj_id (fold handle_instruction ps s) = obj_id s"
  "obj_garnishes (fold handle_instruction ps s) = obj_garnishes s"
  "obj_tags (fold handle_instruction ps s) = obj_tags s"
  "cocktails (txn (fold handle_instruction ps s)) = cocktails (txn s)"
  "ingredients (txn (fold handle_instruction ps s)) = ingredients (txn s)"
  "cocktail_ingredients (txn (fold handle_instruction ps s)) = cocktail_ingredients (txn s)"
  "tags (txn (fold handle_instruction ps s)) = tags (txn s)"
  "garnishes (txn (fold handle_instruction ps s)) = garnishes (txn s)"
  "cocktail_tags (txn (fold handle_instruction ps s)) = cocktail_tags (txn s)"
  "cocktail_garnishes (txn (fold handle_instruction ps s)) = cocktail_garnishes (txn s)"
  by (induction ps arbitrary: s; simp)+

lemma fold_handle_instruction:
  assumes "session_inv s"
  shows "session_inv (fold handle_instruction ps s) \<and>
         (\<exists>rows. instructions (txn (fold handle_instruction ps s)) = instructions (txn s) @ rows \<and>
            map (\<lambda>r. (ins_cocktail_id r, ins_step_number r, ins_instruction_text r)) rows =
            map (\<lambda>(idx, tx). (obj_id s, int idx + 1, tx)) ps)"
  using assms
proof (induction ps arbitrary: s)
  case Nil
  then show ?case by simp
next
  case (Cons p ps)
  obtain idx tx where p: "p = (idx, tx)" by (cases p)
  let ?s1 = "handle_instruction p s"
  from Cons.prems have inv1: "session_inv ?s1" by (rule session_inv_handle_instruction)
  from Cons.IH [OF inv1] obtain rows where
    inv: "session_inv (fold handle_instruction ps ?s1)"
    and rows: "instructions (txn (fold handle_instruction ps ?s1)) = instructions (txn ?s1) @ rows"
    and m: "map (\<lambda>r. (ins_cocktail_id r, ins_step_number r, ins_instruction_text r)) rows =
            map (\<lambda>(idx, tx). (obj_id ?s1, int idx + 1, tx)) ps"
    by blast
  let ?row = "\<lparr>ins_id = next_id (map ins_id (instructions (txn s))), ins_cocktail_id = obj_id s,
         ins_step_number = int idx + 1, ins_instruction_text = tx\<rparr>"
  have "instructions (txn (fold handle_instruction (p # ps) s)) = instructions (txn s) @ (?row # rows)"
    using rows by (simp add: p handle_instruction_rows)
  moreover have "map (\<lambda>r. (ins_cocktail_id r, ins_step_number r, ins_instruction_text r)) (?row # rows) =
            map (\<lambda>(idx, tx). (obj_id s, int idx + 1, tx)) (p # ps)"
    using m by (simp add: p)
  ultimately show ?case using inv by simp
qed

lemma handle_instructions_frame [simp]:
  "obj_id (handle_instructions texts s) = obj_id s"
  "obj_garnishes (handle_instructions texts s) = obj_garnishes s"
  "obj_tags (handle_instructions texts s) = obj_tags s"
  "cocktails (txn (handle_instructions texts s)) = cocktails (txn s)"
  "ingredients (txn (handle_instructions texts s)) = ingredients (txn s)"
  "cocktail_ingredients (txn (handle_instructions texts s)) = cocktail_ingredients (txn s)"
  "tags (txn (handle_instructions texts s)) = tags (txn s)"
  "garnishes (txn (handle_instructions texts s)) = garnishes (txn s)"
  "cocktail_tags (txn (handle_instructions texts s)) = cocktail_tags (txn s)"
  "cocktail_garnishes (txn (handle_instructions texts s)) = cocktail_garnishes (txn s)"
  by (simp_all add: handle_instructions_def)

lemma handle_instructions_loop:
  assumes "session_inv s"
  shows "session_inv (handle_instructions texts s) \<and>
         (\<exists>rows. instructions (txn (handle_instructions texts s)) = instructions (txn s) @ rows \<and>
            map ins_cocktail_id rows = replicate (length texts) (obj_id s) \<and>
            map ins_step_number rows = map (\<lambda>k. int k + 1) [0..<length texts] \<and>
            map ins_instruction_text rows = texts)"
proof -
  from fold_handle_instruction [OF assms, of "enumerate 0 texts"] obtain rows where
    inv: "session_inv (handle_instructions texts s)"
    and rows: "instructions (txn (handle_instructions texts s)) = instructions (txn s) @ rows"
    and m: "map (\<lambda>r. (ins_cocktail_id r, ins_step_number r, ins_instruction_text r)) rows =
            map (\<lambda>(idx, tx). (obj_id s, int idx + 1, tx)) (enumerate 0 texts)"
    unfolding handle_instructions_def by blast
  have len: "length rows = length texts"
    using arg_cong [OF m, of length] by simp
  have nth: "ins_cocktail_id (rows ! k) = obj_id s \<and> ins_step_number (rows ! k) = int k + 1 \<and>
        ins_instruction_text (rows ! k) = texts ! k" if "k < length texts" for k
  proof -
    from that len have "(\<lambda>r. (ins_cocktail_id r, ins_step_number r, ins_instruction_text r)) (rows ! k) =
        map (\<lambda>r. (ins_cocktail_id r, ins_step_number r, ins_instruction_text r)) rows ! k"
      by simp
    also have "\<dots> = (obj_id s, int k + 1, texts ! k)"
      unfolding m using that by (simp add: nth_enumerate_eq)
    finally show ?thesis by simp
  qed
  have "map ins_cocktail_id rows = replicate (length texts) (obj_id s)"
    by (rule nth_equalityI) (simp_all add: len nth)
  moreover have "map ins_step_number rows = map (\<lambda>k. int k + 1) [0..<length texts]"
    by (rule nth_equalityI) (simp_all add: len nth)
  moreover have "map ins_instruction_text rows = texts"
    by (rule nth_equalityI) (simp_all add: len nth)
  ultimately show ?thesis using inv rows by blast
qed

subsection \<open>Many-to-many collections\<close>

lemma set_secondary_join:
  "set (secondary_join links pk rows cid) = {r \<in> set rows. (cid, pk r) \<in> set links}"
  by (auto simp: secondary_join_def split: if_splits)

lemma flush_fold:
  assumes "\<And>x s. f x (flush s) = f x s"
  shows "flush (fold f xs s) = fold (\<lambda>x s. flush (f x s)) xs (flush s)"
proof (induction xs arbitrary: s)
  case Nil
  show ?case by simp
next
  case (Cons x xs)
  have "flush (fold f (x # xs) s) = flush (fold f xs (f x s))" by simp
  also have "\<dots> = fold (\<lambda>x s. flush (f x s)) xs (flush (f x s))" by (rule Cons.IH)
  also have "\<dots> = fold (\<lambda>x s. flush (f x s)) (x # xs) (flush s)" by (simp add: assms)
  finally show ?case .
qed

lemma handle_garnish_flush: "handle_garnish n (flush s) = handle_garnish n s"
  by (simp add: handle_garnish_def query_Garnish_first_def)

lemma handle_tag_flush: "handle_tag ty n (flush s) = handle_tag ty n s"
  by (simp add: handle_tag_def query_Tag_first_def)

lemma coll_added_append:
  assumes "coll_original c = None"
  shows "coll_added (coll_append ld x c) = (if x \<in> set (coll_load ld c) then [] else [x])"
  using assms by (simp add: coll_added_def coll_append_def Let_def)

lemma coll_items_append:
  "coll_items (coll_append ld x c) = Some (coll_load ld c @ [x])"
  by (simp add: coll_append_def Let_def)

lemma coll_load_Some [simp]: "coll_items c = Some cur \<Longrightarrow> coll_load ld c = cur"
  by (simp add: coll_load_def)

lemma link_step:
  assumes "distinct (map pk rows)" and "g \<in> set rows"
    and "set cur = set (secondary_join L pk rows cid)" and "distinct L"
  shows "set (cur @ [g]) =
           set (secondary_join (L @ (if g \<in> set cur then [] else [(cid, pk g)])) pk rows cid)"
    and "distinct (L @ (if g \<in> set cur then [] else [(cid, pk g)]))"
    and "(cid, pk g) \<in> set (L @ (if g \<in> set cur then [] else [(cid, pk g)]))"
proof -
  from assms(1) have inj: "r = g" if "r \<in> set rows" "pk r = pk g" for r
    using that assms(2) by (meson distinct_map inj_onD)
  have cur: "set cur = {r \<in> set rows. (cid, pk r) \<in> set L}"
    using assms(3) by (simp add: set_secondary_join)
  show "set (cur @ [g]) =
           set (secondary_join (L @ (if g \<in> set cur then [] else [(cid, pk g)])) pk rows cid)"
    using assms(2) inj by (auto simp: set_secondary_join cur)
  show "distinct (L @ (if g \<in> set cur then [] else [(cid, pk g)]))"
    using assms(2,4) by (auto simp: cur)
  show "(cid, pk g) \<in> set (L @ (if g \<in> set cur then [] else [(cid, pk g)]))"
    by (auto simp: cur)
qed

lemma flush_garnishes_append:
  assumes "clean s"
  shows "txn (flush (garnishes_append g s)) =
           (txn s)\<lparr>cocktail_garnishes := cocktail_garnishes (txn s) @
              (if g \<in> set (coll_load (Cocktail_garnishes (txn s) (obj_id s)) (obj_garnishes s))
               then [] else [(obj_id s, gar_id g)])\<rparr>"
    and "coll_items (obj_garnishes (flush (garnishes_append g s))) =
           Some (coll_load (Cocktail_garnishes (txn s) (obj_id s)) (obj_garnishes s) @ [g])"
    and "obj_tags (flush (garnishes_append g s)) = obj_tags s"
    and "obj_id (flush (garnishes_append g s)) = obj_id s"
    and "commits (flush (garnishes_append g s)) = commits s"
  using assms
  by (simp_all add: flush_def garnishes_append_def coll_added_append coll_items_append clean_def)

lemma flush_tags_append:
  assumes "clean s"
  shows "txn (flush (tags_append t s)) =
           (txn s)\<lparr>cocktail_tags := cocktail_tags (txn s) @
              (if t \<in> set (coll_load (Cocktail_tags (txn s) (obj_id s)) (obj_tags s))
               then [] else [(obj_id s, tag_id t)])\<rparr>"
    and "coll_items (obj_tags (flush (tags_append t s))) =
           Some (coll_load (Cocktail_tags (txn s) (obj_id s)) (obj_tags s) @ [t])"
    and "obj_garnishes (flush (tags_append t s)) = obj_garnishes s"
    and "obj_id (flush (tags_append t s)) = obj_id s"
    and "commits (flush (tags_append t s)) = commits s"
  using assms
  by (simp_all add: flush_def tags_append_def coll_added_append coll_items_append clean_def)

lemma wf_db_garnish_update:
  assumes "wf_db db" and "distinct (map gar_id G)" and "distinct (map gar_name G)"
    and "wf_links L (map ck_id (cocktails db)) (map gar_id G)"
  shows "wf_db (db\<lparr>garnishes := G, cocktail_garnishes := L\<rparr>)"
  using assms by (simp add: wf_db_def)

lemma wf_db_tag_update:
  assumes "wf_db db" and "distinct (map tag_id T)"
    and "distinct (map (\<lambda>t. (tag_name t, tag_type t)) T)"
    and "wf_links L (map ck_id (cocktails db)) (map tag_id T)"
  shows "wf_db (db\<lparr>tags := T, cocktail_tags := L\<rparr>)"
  using assms by (simp add: wf_db_def)

subsection \<open>The garnishes\<close>

lemma garnish_step:
  assumes "session_inv s"
  shows "session_inv (flush (handle_garnish n s)) \<and>
         obj_id (flush (handle_garnish n s)) = obj_id s \<and>
         cocktails (txn (flush (handle_garnish n s))) = cocktails (txn s) \<and>
         ingredients (txn (flush (handle_garnish n s))) = ingredients (txn s) \<and>
         cocktail_ingredients (txn (flush (handle_garnish n s))) = cocktail_ingredients (txn s) \<and>
         instructions (txn (flush (handle_garnish n s))) = instructions (txn s) \<and>
         tags (txn (flush (handle_garnish n s))) = tags (txn s) \<and>
         cocktail_tags (txn (flush (handle_garnish n s))) = cocktail_tags (txn s) \<and>
         set (garnishes (txn s)) \<subseteq> set (garnishes (txn (flush (handle_garnish n s)))) \<and>
         set (cocktail_garnishes (txn s)) \<subseteq>
           set (cocktail_garnishes (txn (flush (handle_garnish n s)))) \<and>
         (\<exists>g \<in> set (garnishes (txn (flush (handle_garnish n s)))). gar_name g = n \<and>
            set (cocktail_garnishes (txn (flush (handle_garnish n s)))) =
              insert (obj_id s, gar_id g) (set (cocktail_garnishes (txn s))))"
    (is "?P (flush (handle_garnish n s))")
proof -
  from assms have cl: "clean s" and sy: "synced s" and wf: "wf_db (txn s)"
    and oid: "obj_id s \<in> set (map ck_id (cocktails (txn s)))"
    by (simp_all add: session_inv_def)
  have fl: "flush s = s" using cl by (rule flush_clean)
  let ?G = "garnishes (txn s)" and ?L = "cocktail_garnishes (txn s)" and ?cid = "obj_id s"
  from wf have wfl: "wf_links ?L (map ck_id (cocktails (txn s))) (map gar_id ?G)"
    and dG: "distinct (map gar_id ?G)" and dN: "distinct (map gar_name ?G)"
    by (simp_all add: wf_db_def)
  show ?thesis
  proof (cases "find (\<lambda>g. gar_name g = n) ?G")
    case (Some g)
    then have mem: "g \<in> set ?G" and nm: "gar_name g = n" by (auto dest: find_SomeD)
    from Some handle_garnish_cases [of n s] fl
    have eq: "handle_garnish n s = garnishes_append g s" by auto
    let ?cur = "coll_load (Cocktail_garnishes (txn s) ?cid) (obj_garnishes s)"
    let ?L' = "?L @ (if g \<in> set ?cur then [] else [(?cid, gar_id g)])"
    from sy have cur: "set ?cur = set (secondary_join ?L gar_id ?G ?cid)"
      by (simp add: synced_def Cocktail_garnishes_def)
    from wfl have dL: "distinct ?L" by (simp add: wf_links_def)
    note ls = link_step [OF dG mem cur dL]
    have wfl': "wf_links ?L' (map ck_id (cocktails (txn s))) (map gar_id ?G)"
      using wfl ls(2) oid mem by (auto simp: wf_links_def)
    have wf': "wf_db ((txn s)\<lparr>cocktail_garnishes := ?L'\<rparr>)"
      using wf_db_garnish_update [OF wf dG dN wfl'] by simp
    note fa = flush_garnishes_append [OF cl, of g]
    have sy': "synced (flush (garnishes_append g s))"
      using sy ls(1) by (simp add: synced_def fa Cocktail_garnishes_def Cocktail_tags_def)
    have inv: "session_inv (flush (garnishes_append g s))"
      using wf' sy' oid by (simp add: session_inv_def fa)
    have "set (cocktail_garnishes (txn (flush (garnishes_append g s)))) =
            insert (?cid, gar_id g) (set ?L)"
      using ls(3) by (auto simp: fa split: if_splits)
    with inv mem nm show ?thesis
      unfolding eq by (auto simp: fa)
  next
    case None
    let ?g = "\<lparr>gar_id = next_id (map gar_id ?G), gar_name = n\<rparr>"
    let ?s1 = "commit (snd (add_Garnish (\<lambda>k. \<lparr>gar_id = k, gar_name = n\<rparr>) s))"
    let ?G' = "?G @ [?g]"
    from None handle_garnish_cases [of n s] fl
    have eq: "handle_garnish n s = garnishes_append ?g ?s1" by auto
    have cl1: "clean ?s1" by simp
    have t1: "txn ?s1 = (txn s)\<lparr>garnishes := ?G'\<rparr>" using cl by simp
    have o1: "obj_id ?s1 = ?cid" by simp
    have c1: "coll_load ld (obj_garnishes ?s1) = ld" for ld by simp
    from None have nn: "n \<notin> set (map gar_name ?G)" by (auto simp: find_None_iff)
    have dG': "distinct (map gar_id ?G')" using dG by simp
    have dN': "distinct (map gar_name ?G')" using dN nn by simp
    have mem: "?g \<in> set ?G'" by simp
    let ?cur = "secondary_join ?L gar_id ?G' ?cid"
    let ?L' = "?L @ (if ?g \<in> set ?cur then [] else [(?cid, gar_id ?g)])"
    from wfl have dL: "distinct ?L" by (simp add: wf_links_def)
    note ls = link_step [OF dG' mem refl dL, of ?cid]
    have wfl': "wf_links ?L' (map ck_id (cocktails (txn s))) (map gar_id ?G')"
      using wfl ls(2) oid by (auto simp: wf_links_def)
    have wf': "wf_db ((txn s)\<lparr>garnishes := ?G', cocktail_garnishes := ?L'\<rparr>)"
      by (rule wf_db_garnish_update [OF wf dG' dN' wfl'])
    note fa = flush_garnishes_append [OF cl1, of ?g]
    have tx: "txn (flush (garnishes_append ?g ?s1)) =
                (txn s)\<lparr>garnishes := ?G', cocktail_garnishes := ?L'\<rparr>"
      unfolding fa(1) c1 o1 t1 by (simp add: Cocktail_garnishes_def)
    have it: "coll_items (obj_garnishes (flush (garnishes_append ?g ?s1))) = Some (?cur @ [?g])"
      unfolding fa(2) c1 o1 t1 by (simp add: Cocktail_garnishes_def)
    have ot: "obj_tags (flush (garnishes_append ?g ?s1)) = expired"
      unfolding fa(3) by simp
    have oi: "obj_id (flush (garnishes_append ?g ?s1)) = ?cid"
      unfolding fa(4) by simp
    have sy': "synced (flush (garnishes_append ?g ?s1))"
      using ls(1) by (simp add: synced_def tx it ot oi Cocktail_garnishes_def)
    have inv: "session_inv (flush (garnishes_append ?g ?s1))"
      using wf' sy' oid by (simp add: session_inv_def tx oi)
    have "set (cocktail_garnishes (txn (flush (garnishes_append ?g ?s1)))) =
            insert (?cid, gar_id ?g) (set ?L)"
      using ls(3) by (auto simp: tx split: if_splits)
    with inv show ?thesis
      unfolding eq by (auto simp: tx oi)
  qed
qed

lemma garnish_loop:
  assumes "session_inv s"
  shows "session_inv (fold (\<lambda>n s. flush (handle_garnish n s)) names s) \<and>
         obj_id (fold (\<lambda>n s. flush (handle_garnish n s)) names s) = obj_id s \<and>
         cocktails (txn (fold (\<lambda>n s. flush (handle_garnish n s)) names s)) = cocktails (txn s) \<and>
         ingredients (txn (fold (\<lambda>n s. flush (handle_garnish n s)) names s)) = ingredients (txn s) \<and>
         cocktail_ingredients (txn (fold (\<lambda>n s. flush (handle_garnish n s)) names s)) =
           cocktail_ingredients (txn s) \<and>
         instructions (txn (fold (\<lambda>n s. flush (handle_garnish n s)) names s)) = instructions (txn s) \<and>
         tags (txn (fold (\<lambda>n s. flush (handle_garnish n s)) names s)) = tags (txn s) \<and>
         cocktail_tags (txn (fold (\<lambda>n s. flush (handle_garnish n s)) names s)) = cocktail_tags (txn s) \<and>
         set (garnishes (txn s)) \<subseteq>
           set (garnishes (txn (fold (\<lambda>n s. flush (handle_garnish n s)) names s))) \<and>
         (\<exists>gs. set gs \<subseteq> set (garnishes (txn (fold (\<lambda>n s. flush (handle_garnish n s)) names s))) \<and>
            gar_name ` set gs = set names \<and>
            set (cocktail_garnishes (txn (fold (\<lambda>n s. flush (handle_garnish n s)) names s))) =
              set (cocktail_garnishes (txn s)) \<union> (\<lambda>g. (obj_id s, gar_id g)) ` set gs)"
  using assms
proof (induction names arbitrary: s)
  case Nil
  then show ?case by simp
next
  case (Cons n names)
  let ?s1 = "flush (handle_garnish n s)"
  let ?s' = "fold (\<lambda>n s. flush (handle_garnish n s)) names ?s1"
  note st = garnish_step [OF Cons.prems, of n]
  from st obtain g where inv1: "session_inv ?s1" and o1: "obj_id ?s1 = obj_id s"
    and g: "g \<in> set (garnishes (txn ?s1))" "gar_name g = n"
    and l1: "set (cocktail_garnishes (txn ?s1)) =
              insert (obj_id s, gar_id g) (set (cocktail_garnishes (txn s)))"
    by blast
  from Cons.IH [OF inv1] obtain gs where inv: "session_inv ?s'"
    and sub: "set (garnishes (txn ?s1)) \<subseteq> set (garnishes (txn ?s'))"
    and gs: "set gs \<subseteq> set (garnishes (txn ?s'))" "gar_name ` set gs = set names"
    and l: "set (cocktail_garnishes (txn ?s')) =
              set (cocktail_garnishes (txn ?s1)) \<union> (\<lambda>g. (obj_id ?s1, gar_id g)) ` set gs"
    by blast
  have "set (g # gs) \<subseteq> set (garnishes (txn ?s'))" using g(1) sub gs(1) by auto
  moreover have "gar_name ` set (g # gs) = set (n # names)" using g(2) gs(2) by simp
  moreover have "set (cocktail_garnishes (txn ?s')) =
      set (cocktail_garnishes (txn s)) \<union> (\<lambda>g. (obj_id s, gar_id g)) ` set (g # gs)"
    unfolding l l1 o1 by auto
  ultimately have ex: "\<exists>gs. set gs \<subseteq> set (garnishes (txn ?s')) \<and>
            gar_name ` set gs = set (n # names) \<and>
            set (cocktail_garnishes (txn ?s')) =
              set (cocktail_garnishes (txn s)) \<union> (\<lambda>g. (obj_id s, gar_id g)) ` set gs"
    by blast
  have sub': "set (garnishes (txn s)) \<subseteq> set (garnishes (txn ?s'))"
    using st sub by blast
  have fr: "obj_id ?s' = obj_id s" "cocktails (txn ?s') = cocktails (txn s)"
    "ingredients (txn ?s') = ingredients (txn s)"
    "cocktail_ingredients (txn ?s') = cocktail_ingredients (txn s)"
    "instructions (txn ?s') = instructions (txn s)"
    "tags (txn ?s') = tags (txn s)"
    "cocktail_tags (txn ?s') = cocktail_tags (txn s)"
    using Cons.IH [OF inv1] st by simp_all
  show ?case
    unfolding fold_simps using inv fr sub' ex by blast
qed

subsection \<open>The tags\<close>

lemma tag_step:
  assumes "session_inv s"
  shows "session_inv (flush (handle_tag ty n s)) \<and>
         obj_id (flush (handle_tag ty n s)) = obj_id s \<and>
         cocktails (txn (flush (handle_tag ty n s))) = cocktails (txn s) \<and>
         ingredients (txn (flush (handle_tag ty n s))) = ingredients (txn s) \<and>
         cocktail_ingredients (txn (flush (handle_tag ty n s))) = cocktail_ingredients (txn s) \<and>
         instructions (txn (flush (handle_tag ty n s))) = instructions (txn s) \<and>
         garnishes (txn (flush (handle_tag ty n s))) = garnishes (txn s) \<and>
         cocktail_garnishes (txn (flush (handle_tag ty n s))) = cocktail_garnishes (txn s) \<and>
         set (tags (txn s)) \<subseteq> set (tags (txn (flush (handle_tag ty n s)))) \<and>
         (\<exists>t \<in> set (tags (txn (flush (handle_tag ty n s)))). tag_name t = n \<and> tag_type t = ty \<and>
            set (cocktail_tags (txn (flush (handle_tag ty n s)))) =
              insert (obj_id s, tag_id t) (set (cocktail_tags (txn s))))"
proof -
  from assms have cl: "clean s" and sy: "synced s" and wf: "wf_db (txn s)"
    and oid: "obj_id s \<in> set (map ck_id (cocktails (txn s)))"
    by (simp_all add: session_inv_def)
  have fl: "flush s = s" using cl by (rule flush_clean)
  let ?T = "tags (txn s)" and ?L = "cocktail_tags (txn s)" and ?cid = "obj_id s"
  from wf have wfl: "wf_links ?L (map ck_id (cocktails (txn s))) (map tag_id ?T)"
    and dT: "distinct (map tag_id ?T)"
    and dN: "distinct (map (\<lambda>t. (tag_name t, tag_type t)) ?T)"
    by (simp_all add: wf_db_def)
  show ?thesis
  proof (cases "find (\<lambda>t. tag_name t = n \<and> tag_type t = ty) ?T")
    case (Some t)
    then have mem: "t \<in> set ?T" and nm: "tag_name t = n" "tag_type t = ty"
      by (auto dest: find_SomeD)
    from Some handle_tag_cases [of n ty s] fl
    have eq: "handle_tag ty n s = tags_append t s" by auto
    let ?cur = "coll_load (Cocktail_tags (txn s) ?cid) (obj_tags s)"
    let ?L' = "?L @ (if t \<in> set ?cur then [] else [(?cid, tag_id t)])"
    from sy have cur: "set ?cur = set (secondary_join ?L tag_id ?T ?cid)"
      by (simp add: synced_def Cocktail_tags_def)
    from wfl have dL: "distinct ?L" by (simp add: wf_links_def)
    note ls = link_step [OF dT mem cur dL]
    have wfl': "wf_links ?L' (map ck_id (cocktails (txn s))) (map tag_id ?T)"
      using wfl ls(2) oid mem by (auto simp: wf_links_def)
    have wf': "wf_db ((txn s)\<lparr>cocktail_tags := ?L'\<rparr>)"
      using wf_db_tag_update [OF wf dT dN wfl'] by simp
    note fa = flush_tags_append [OF cl, of t]
    have sy': "synced (flush (tags_append t s))"
      using sy ls(1) by (simp add: synced_def fa Cocktail_garnishes_def Cocktail_tags_def)
    have inv: "session_inv (flush (tags_append t s))"
      using wf' sy' oid by (simp add: session_inv_def fa)
    have "set (cocktail_tags (txn (flush (tags_append t s)))) =
            insert (?cid, tag_id t) (set ?L)"
      using ls(3) by (auto simp: fa split: if_splits)
    with inv mem nm show ?thesis
      unfolding eq by (auto simp: fa)
  next
    case None
    let ?t = "\<lparr>tag_id = next_id (map tag_id ?T), tag_name = n, tag_type = ty\<rparr>"
    let ?s1 = "commit (snd (add_Tag (\<lambda>k. \<lparr>tag_id = k, tag_name = n, tag_type = ty\<rparr>) s))"
    let ?T' = "?T @ [?t]"
    from None handle_tag_cases [of n ty s] fl
    have eq: "handle_tag ty n s = tags_append ?t ?s1" by auto
    have cl1: "clean ?s1" by simp
    have t1: "txn ?s1 = (txn s)\<lparr>tags := ?T'\<rparr>" using cl by simp
    have o1: "obj_id ?s1 = ?cid" by simp
    have c1: "coll_load ld (obj_tags ?s1) = ld" for ld by simp
    from None have nn: "(n, ty) \<notin> set (map (\<lambda>t. (tag_name t, tag_type t)) ?T)"
      by (auto simp: find_None_iff)
    have dT': "distinct (map tag_id ?T')" using dT by simp
    have dN': "distinct (map (\<lambda>t. (tag_name t, tag_type t)) ?T')" using dN nn by simp
    have mem: "?t \<in> set ?T'" by simp
    let ?cur = "secondary_join ?L tag_id ?T' ?cid"
    let ?L' = "?L @ (if ?t \<in> set ?cur then [] else [(?cid, tag_id ?t)])"
    from wfl have dL: "distinct ?L" by (simp add: wf_links_def)
    note ls = link_step [OF dT' mem refl dL, of ?cid]
    have wfl': "wf_links ?L' (map ck_id (cocktails (txn s))) (map tag_id ?T')"
      using wfl ls(2) oid by (auto simp: wf_links_def)
    have wf': "wf_db ((txn s)\<lparr>tags := ?T', cocktail_tags := ?L'\<rparr>)"
      by (rule wf_db_tag_update [OF wf dT' dN' wfl'])
    note fa = flush_tags_append [OF cl1, of ?t]
    have tx: "txn (flush (tags_append ?t ?s1)) = (txn s)\<lparr>tags := ?T', cocktail_tags := ?L'\<rparr>"
      unfolding fa(1) c1 o1 t1 by (simp add: Cocktail_tags_def)
    have it: "coll_items (obj_tags (flush (tags_append ?t ?s1))) = Some (?cur @ [?t])"
      unfolding fa(2) c1 o1 t1 by (simp add: Cocktail_tags_def)
    have ot: "obj_garnishes (flush (tags_append ?t ?s1)) = expired"
      unfolding fa(3) by simp
    have oi: "obj_id (flush (tags_append ?t ?s1)) = ?cid"
      unfolding fa(4) by simp
    have sy': "synced (flush (tags_append ?t ?s1))"
      using ls(1) by (simp add: synced_def tx it ot oi Cocktail_tags_def)
    have inv: "session_inv (flush (tags_append ?t ?s1))"
      using wf' sy' oid by (simp add: session_inv_def tx oi)
    have "set (cocktail_tags (txn (flush (tags_append ?t ?s1)))) =
            insert (?cid, tag_id ?t) (set ?L)"
      using ls(3) by (auto simp: tx split: if_splits)
    with inv show ?thesis
      unfolding eq by (auto simp: tx oi)
  qed
qed

lemma tag_loop:
  assumes "session_inv s"
  shows "session_inv (fold (\<lambda>n s. flush (handle_tag ty n s)) names s) \<and>
         obj_id (fold (\<lambda>n s. flush (handle_tag ty n s)) names s) = obj_id s \<and>
         cocktails (txn (fold (\<lambda>n s. flush (handle_tag ty n s)) names s)) = cocktails (txn s) \<and>
         ingredients (txn (fold (\<lambda>n s. flush (handle_tag ty n s)) names s)) = ingredients (txn s) \<and>
         cocktail_ingredients (txn (fold (\<lambda>n s. flush (handle_tag ty n s)) names s)) =
           cocktail_ingredients (txn s) \<and>
         instructions (txn (fold (\<lambda>n s. flush (handle_tag ty n s)) names s)) = instructions (txn s) \<and>
         garnishes (txn (fold (\<lambda>n s. flush (handle_tag ty n s)) names s)) = garnishes (txn s) \<and>
         cocktail_garnishes (txn (fold (\<lambda>n s. flush (handle_tag ty n s)) names s)) =
           cocktail_garnishes (txn s) \<and>
         set (tags (txn s)) \<subseteq> set (tags (txn (fold (\<lambda>n s. flush (handle_tag ty n s)) names s))) \<and>
         (\<exists>ts. set ts \<subseteq> set (tags (txn (fold (\<lambda>n s. flush (handle_tag ty n s)) names s))) \<and>
            tag_name ` set ts = set names \<and> (\<forall>t \<in> set ts. tag_type t = ty) \<and>
            set (cocktail_tags (txn (fold (\<lambda>n s. flush (handle_tag ty n s)) names s))) =
              set (cocktail_tags (txn s)) \<union> (\<lambda>t. (obj_id s, tag_id t)) ` set ts)"
  using assms
proof (induction names arbitrary: s)
  case Nil
  then show ?case by simp
next
  case (Cons n names)
  let ?s1 = "flush (handle_tag ty n s)"
  let ?s' = "fold (\<lambda>n s. flush (handle_tag ty n s)) names ?s1"
  note st = tag_step [OF Cons.prems, of ty n]
  from st obtain t where inv1: "session_inv ?s1" and o1: "obj_id ?s1 = obj_id s"
    and t: "t \<in> set (tags (txn ?s1))" "tag_name t = n" "tag_type t = ty"
    and l1: "set (cocktail_tags (txn ?s1)) =
              insert (obj_id s, tag_id t) (set (cocktail_tags (txn s)))"
    by blast
  from Cons.IH [OF inv1] obtain ts where inv: "session_inv ?s'"
    and sub: "set (tags (txn ?s1)) \<subseteq> set (tags (txn ?s'))"
    and ts: "set ts \<subseteq> set (tags (txn ?s'))" "tag_name ` set ts = set names"
      "\<forall>t \<in> set ts. tag_type t = ty"
    and l: "set (cocktail_tags (txn ?s')) =
              set (cocktail_tags (txn ?s1)) \<union> (\<lambda>t. (obj_id ?s1, tag_id t)) ` set ts"
    by blast
  have "set (t # ts) \<subseteq> set (tags (txn ?s'))" using t(1) sub ts(1) by auto
  moreover have "tag_name ` set (t # ts) = set (n # names)" using t(2) ts(2) by simp
  moreover have "\<forall>t \<in> set (t # ts). tag_type t = ty" using t(3) ts(3) by simp
  moreover have "set (cocktail_tags (txn ?s')) =
      set (cocktail_tags (txn s)) \<union> (\<lambda>t. (obj_id s, tag_id t)) ` set (t # ts)"
    unfolding l l1 o1 by auto
  ultimately have ex: "\<exists>ts. set ts \<subseteq> set (tags (txn ?s')) \<and>
            tag_name ` set ts = set (n # names) \<and> (\<forall>t \<in> set ts. tag_type t = ty) \<and>
            set (cocktail_tags (txn ?s')) =
              set (cocktail_tags (txn s)) \<union> (\<lambda>t. (obj_id s, tag_id t)) ` set ts"
    by blast
  have sub': "set (tags (txn s)) \<subseteq> set (tags (txn ?s'))"
    using st sub by blast
  have fr: "obj_id ?s' = obj_id s" "cocktails (txn ?s') = cocktails (txn s)"
    "ingredients (txn ?s') = ingredients (txn s)"
    "cocktail_ingredients (txn ?s') = cocktail_ingredients (txn s)"
    "instructions (txn ?s') = instructions (txn s)"
    "garnishes (txn ?s') = garnishes (txn s)"
    "cocktail_garnishes (txn ?s') = cocktail_garnishes (txn s)"
    using Cons.IH [OF inv1] st by simp_all
  show ?case
    unfolding fold_simps using inv fr sub' ex by blast
qed

subsection \<open>The whole request\<close>

lemma session_inv_add_new_cocktail:
  assumes "wf_db db"
  shows "session_inv (snd (add_new_cocktail c (begin_session db)))"
proof -
  let ?row = "fst (add_new_cocktail c (begin_session db))"
  have "ck_id ?row = next_id (map ck_id (cocktails db))"
    by (simp add: fst_add_new_cocktail begin_session_def)
  then have "ck_id ?row \<notin> set (map ck_id (cocktails db))" by simp
  with assms have "wf_db (db\<lparr>cocktails := cocktails db @ [?row]\<rparr>)"
    by (rule wf_db_add_cocktail)
  then show ?thesis
    by (simp add: snd_add_new_cocktail_begin session_inv_def clean_def synced_def expired_def
        coll_load_def)
qed

lemma flush_create_folds:
  assumes "clean s"
  shows "flush (handle_tags t2 fnames (handle_tags t1 tnames (handle_garnishes gnames s))) =
         fold (\<lambda>n s. flush (handle_tag t2 n s)) fnames
           (fold (\<lambda>n s. flush (handle_tag t1 n s)) tnames
             (fold (\<lambda>n s. flush (handle_garnish n s)) gnames s))"
proof -
  have "flush (handle_garnishes gnames s) = fold (\<lambda>n s. flush (handle_garnish n s)) gnames s"
    unfolding handle_garnishes_def
    by (simp add: flush_fold [of handle_garnish, OF handle_garnish_flush] flush_clean [OF assms])
  then have "flush (handle_tags t1 tnames (handle_garnishes gnames s)) =
      fold (\<lambda>n s. flush (handle_tag t1 n s)) tnames
        (fold (\<lambda>n s. flush (handle_garnish n s)) gnames s)"
    unfolding handle_tags_def
    by (simp add: flush_fold [of "handle_tag t1", OF handle_tag_flush])
  then show ?thesis
    unfolding handle_tags_def
    by (simp add: flush_fold [of "handle_tag t2", OF handle_tag_flush])
qed

text \<open>
  What a request leaves in the transaction when it starts from a well-formed database.
\<close>

lemma create_session_result:
  fixes c :: CocktailCreate and db :: database
  assumes "wf_db db"
  defines "s \<equiv> snd (create_session c (begin_session db))"
    and "cid \<equiv> next_id (map ck_id (cocktails db))"
  shows "wf_db (txn s)"
    and "cocktails (txn s) = cocktails db @ [fst (create_session c (begin_session db))]"
    and "ck_id (fst (create_session c (begin_session db))) = cid"
    and "\<exists>rows. cocktail_ingredients (txn s) = cocktail_ingredients db @ rows \<and>
           list_all2 (line_row (txn s) cid) (cc_ingredients c) rows"
    and "\<exists>rows. instructions (txn s) = instructions db @ rows \<and>
           map ins_cocktail_id rows = replicate (length (cc_instructions c)) cid \<and>
           map ins_step_number rows = map (\<lambda>k. int k + 1) [0..<length (cc_instructions c)] \<and>
           map ins_instruction_text rows = cc_instructions c"
    and "\<exists>gs. set gs \<subseteq> set (garnishes (txn s)) \<and>
           gar_name ` set gs = set (metadata_list mc_garnish c) \<and>
           set (cocktail_garnishes (txn s)) =
             set (cocktail_garnishes db) \<union> (\<lambda>g. (cid, gar_id g)) ` set gs"
    and "\<exists>ts fs. set ts \<subseteq> set (tags (txn s)) \<and> set fs \<subseteq> set (tags (txn s)) \<and>
           tag_name ` set ts = set (metadata_list mc_tags c) \<and>
           (\<forall>t \<in> set ts. tag_type t = ''tag'') \<and>
           tag_name ` set fs = set (metadata_list mc_flavor_tags c) \<and>
           (\<forall>t \<in> set fs. tag_type t = ''flavor_tag'') \<and>
           set (cocktail_tags (txn s)) =
             set (cocktail_tags db) \<union> (\<lambda>t. (cid, tag_id t)) ` (set ts \<union> set fs)"
proof -
  let ?row = "fst (add_new_cocktail c (begin_session db))"
  let ?s2 = "snd (add_new_cocktail c (begin_session db))"
  let ?s3 = "handle_ingredients (cc_ingredients c) ?s2"
  let ?s4 = "handle_instructions (cc_instructions c) ?s3"
  let ?s5 = "fold (\<lambda>n s. flush (handle_garnish n s)) (metadata_list mc_garnish c) ?s4"
  let ?s6 = "fold (\<lambda>n s. flush (handle_tag ''tag'' n s)) (metadata_list mc_tags c) ?s5"
  let ?s7 = "fold (\<lambda>n s. flush (handle_tag ''flavor_tag'' n s)) (metadata_list mc_flavor_tags c) ?s6"
  have row: "fst (create_session c (begin_session db)) = ?row"
    by (simp add: create_session_eq)
  have cid: "ck_id ?row = cid"
    by (simp add: fst_add_new_cocktail begin_session_def cid_def)
  have t2: "txn ?s2 = db\<lparr>cocktails := cocktails db @ [?row]\<rparr>" and o2: "obj_id ?s2 = cid"
    by (simp_all add: snd_add_new_cocktail_begin cid)
  have inv2: "session_inv ?s2" using assms(1) by (rule session_inv_add_new_cocktail)
  note p3 = handle_ingredients_loop [OF inv2, of "cc_ingredients c"]
  from p3 have inv3: "session_inv ?s3" by blast
  note p4 = handle_instructions_loop [OF inv3, of "cc_instructions c"]
  from p4 have inv4: "session_inv ?s4" by blast
  note p5 = garnish_loop [OF inv4, of "metadata_list mc_garnish c"]
  from p5 have inv5: "session_inv ?s5" by blast
  note p6 = tag_loop [OF inv5, of "''tag''" "metadata_list mc_tags c"]
  from p6 have inv6: "session_inv ?s6" by blast
  note p7 = tag_loop [OF inv6, of "''flavor_tag''" "metadata_list mc_flavor_tags c"]
  from p7 have inv7: "session_inv ?s7" by blast
  from inv4 have "clean ?s4" by (simp add: session_inv_def)
  from flush_create_folds [OF this]
  have tx: "txn s = txn ?s7"
    by (simp add: s_def create_session_eq)
  have o3: "obj_id ?s3 = cid" and o4: "obj_id ?s4 = cid" using o2 by simp_all
  have o5: "obj_id ?s5 = cid" using p5 o4 by simp
  have o6: "obj_id ?s6 = cid" using p6 o5 by simp
  show "wf_db (txn s)" using inv7 by (simp add: tx session_inv_def)
  show "ck_id (fst (create_session c (begin_session db))) = cid" by (simp add: row cid)
  have "cocktails (txn ?s7) = cocktails (txn ?s2)"
    using p5 p6 p7 by simp
  then show "cocktails (txn s) = cocktails db @ [fst (create_session c (begin_session db))]"
    by (simp add: tx row t2)
  have ci7: "cocktail_ingredients (txn ?s7) = cocktail_ingredients (txn ?s3)"
    and ing7: "ingredients (txn ?s7) = ingredients (txn ?s3)"
    and ins7: "instructions (txn ?s7) = instructions (txn ?s4)"
    using p5 p6 p7 by simp_all
  from p3 obtain rows where
    r: "cocktail_ingredients (txn ?s3) = cocktail_ingredients (txn ?s2) @ rows"
    and lr: "list_all2 (line_row (txn ?s3) (obj_id ?s2)) (cc_ingredients c) rows"
    by blast
  have "line_row (txn ?s3) = line_row (txn ?s7)"
    by (intro ext) (simp add: line_row_def ing7)
  with r lr show "\<exists>rows. cocktail_ingredients (txn s) = cocktail_ingredients db @ rows \<and>
           list_all2 (line_row (txn s) cid) (cc_ingredients c) rows"
    by (auto simp: tx ci7 t2 o2)
  from p4 show "\<exists>rows. instructions (txn s) = instructions db @ rows \<and>
           map ins_cocktail_id rows = replicate (length (cc_instructions c)) cid \<and>
           map ins_step_number rows = map (\<lambda>k. int k + 1) [0..<length (cc_instructions c)] \<and>
           map ins_instruction_text rows = cc_instructions c"
    by (simp add: tx ins7 o2 t2)
  have g4: "cocktail_garnishes (txn ?s4) = cocktail_garnishes db"
    and tg4: "cocktail_tags (txn ?s4) = cocktail_tags db"
    using p3 by (simp_all add: t2)
  have g7: "garnishes (txn ?s7) = garnishes (txn ?s5)"
    and cg7: "cocktail_garnishes (txn ?s7) = cocktail_garnishes (txn ?s5)"
    using p6 p7 by simp_all
  from p5 obtain gs where gs: "set gs \<subseteq> set (garnishes (txn ?s5))"
    "gar_name ` set gs = set (metadata_list mc_garnish c)"
    "set (cocktail_garnishes (txn ?s5)) =
       set (cocktail_garnishes (txn ?s4)) \<union> (\<lambda>g. (cid, gar_id g)) ` set gs"
    unfolding o4 by blast
  show "\<exists>gs. set gs \<subseteq> set (garnishes (txn s)) \<and>
           gar_name ` set gs = set (metadata_list mc_garnish c) \<and>
           set (cocktail_garnishes (txn s)) =
             set (cocktail_garnishes db) \<union> (\<lambda>g. (cid, gar_id g)) ` set gs"
    unfolding tx g7 cg7 using gs unfolding g4 by blast
  from p6 obtain ts where ts: "set ts \<subseteq> set (tags (txn ?s6))"
    "tag_name ` set ts = set (metadata_list mc_tags c)" "\<forall>t \<in> set ts. tag_type t = ''tag''"
    "set (cocktail_tags (txn ?s6)) = set (cocktail_tags (txn ?s5)) \<union> (\<lambda>t. (cid, tag_id t)) ` set ts"
    unfolding o5 by blast
  from p7 obtain fs where fs: "set fs \<subseteq> set (tags (txn ?s7))"
    "tag_name ` set fs = set (metadata_list mc_flavor_tags c)"
    "\<forall>t \<in> set fs. tag_type t = ''flavor_tag''"
    "set (cocktail_tags (txn ?s7)) = set (cocktail_tags (txn ?s6)) \<union> (\<lambda>t. (cid, tag_id t)) ` set fs"
    and sub: "set (tags (txn ?s6)) \<subseteq> set (tags (txn ?s7))"
    unfolding o6 by blast
  have ct5: "cocktail_tags (txn ?s5) = cocktail_tags db" using p5 tg4 by simp
  have "set ts \<subseteq> set (tags (txn ?s7))" using ts(1) sub by blast
  moreover have "set (cocktail_tags (txn ?s7)) =
      set (cocktail_tags db) \<union> (\<lambda>t. (cid, tag_id t)) ` (set ts \<union> set fs)"
    unfolding fs(4) ts(4) ct5 by auto
  ultimately show "\<exists>ts fs. set ts \<subseteq> set (tags (txn s)) \<and> set fs \<subseteq> set (tags (txn s)) \<and>
           tag_name ` set ts = set (metadata_list mc_tags c) \<and>
           (\<forall>t \<in> set ts. tag_type t = ''tag'') \<and>
           tag_name ` set fs = set (metadata_list mc_flavor_tags c) \<and>
           (\<forall>t \<in> set fs. tag_type t = ''flavor_tag'') \<and>
           set (cocktail_tags (txn s)) =
             set (cocktail_tags db) \<union> (\<lambda>t. (cid, tag_id t)) ` (set ts \<union> set fs)"
    unfolding tx using ts(2,3) fs(1,2,3) by blast
qed

subsection \<open>What the request returns\<close>

lemma create_db_eq: "create_db c db = txn (snd (create_session c (begin_session db)))"
  by (simp add: create_db_def create_cocktail_def durable_def create_session_eq split_beta)

lemma fst_create_cocktail:
  "fst (create_cocktail c db) =
     (case serialize_cocktail (create_db c db) (fst (create_session c (begin_session db))) of
        None \<Rightarrow> Inl AttributeError | Some d \<Rightarrow> Inr d)"
  by (simp add: create_db_eq create_cocktail_def split_beta)

lemma fst_create_session:
  "fst (create_session c (begin_session db)) =
     \<lparr>ck_id = next_id (map ck_id (cocktails db)), ck_title = cc_title c,
      ck_author = cc_author c, ck_description = cc_description c,
      ck_difficulty = metadata_field mc_difficulty c,
      ck_glass_type = metadata_field mc_glass_type c,
      ck_cover_image = metadata_field mc_cover_image c\<rparr>"
  by (simp add: create_session_eq fst_add_new_cocktail begin_session_def)

lemma wf_db_create: "wf_db db \<Longrightarrow> wf_db (create_db c db)"
  by (simp add: create_db_eq create_session_result(1))

lemma wf_db_empty: "wf_db empty_database"
  by (simp add: wf_db_def wf_links_def empty_database_def)

lemma db_le_create: "db_le db (create_db c db)"
  using chain_create_session [of db c] by (simp add: create_db_eq chain_def)

lemma sorted_steps: "sorted (map (\<lambda>k. int k + 1) [0..<n])"
  by (simp add: sorted_map sorted_wrt_iff_nth_less)

lemma new_cocktail_ingredients:
  assumes "wf_db db"
  shows "list_all2 (line_row (create_db c db) (next_id (map ck_id (cocktails db))))
           (cc_ingredients c)
           (Cocktail_ingredients (create_db c db) (next_id (map ck_id (cocktails db))))"
proof -
  let ?cid = "next_id (map ck_id (cocktails db))"
  from create_session_result(4) [OF assms, of c] obtain rows where
    rows: "cocktail_ingredients (create_db c db) = cocktail_ingredients db @ rows"
    and lr: "list_all2 (line_row (create_db c db) ?cid) (cc_ingredients c) rows"
    by (auto simp: create_db_eq)
  from assms have "\<forall>ci \<in> set (cocktail_ingredients db).
      ci_cocktail_id ci \<in> ck_id ` set (cocktails db)"
    by (simp add: wf_db_def)
  moreover have "?cid \<notin> ck_id ` set (cocktails db)" by simp
  ultimately have "\<forall>ci \<in> set (cocktail_ingredients db). ci_cocktail_id ci \<noteq> ?cid"
    by metis
  then have old: "filter (\<lambda>ci. ci_cocktail_id ci = ?cid) (cocktail_ingredients db) = []"
    by simp
  from lr have "\<forall>r \<in> set rows. ci_cocktail_id r = ?cid"
    by (auto simp: list_all2_conv_all_nth in_set_conv_nth line_row_def)
  then have "filter (\<lambda>ci. ci_cocktail_id ci = ?cid) rows = rows" by simp
  with old rows lr show ?thesis by (simp add: Cocktail_ingredients_def)
qed

lemma new_cocktail_instructions:
  assumes "wf_db db"
  shows "map ins_step_number
           (Cocktail_instructions (create_db c db) (next_id (map ck_id (cocktails db)))) =
         map (\<lambda>k. int k + 1) [0..<length (cc_instructions c)]"
    and "map ins_instruction_text
           (Cocktail_instructions (create_db c db) (next_id (map ck_id (cocktails db)))) =
         cc_instructions c"
proof -
  let ?cid = "next_id (map ck_id (cocktails db))"
  from create_session_result(5) [OF assms, of c] obtain rows where
    rows: "instructions (create_db c db) = instructions db @ rows"
    and c: "map ins_cocktail_id rows = replicate (length (cc_instructions c)) ?cid"
    and st: "map ins_step_number rows = map (\<lambda>k. int k + 1) [0..<length (cc_instructions c)]"
    and tx: "map ins_instruction_text rows = cc_instructions c"
    by (auto simp: create_db_eq)
  from assms have "\<forall>i \<in> set (instructions db). ins_cocktail_id i \<in> ck_id ` set (cocktails db)"
    by (simp add: wf_db_def)
  moreover have "?cid \<notin> ck_id ` set (cocktails db)" by simp
  ultimately have "\<forall>i \<in> set (instructions db). ins_cocktail_id i \<noteq> ?cid"
    by metis
  then have old: "filter (\<lambda>i. ins_cocktail_id i = ?cid) (instructions db) = []"
    by simp
  have "\<forall>r \<in> set rows. ins_cocktail_id r = ?cid"
  proof
    fix r assume "r \<in> set rows"
    then have "ins_cocktail_id r \<in> set (map ins_cocktail_id rows)" by simp
    then show "ins_cocktail_id r = ?cid" unfolding c by simp
  qed
  then have "filter (\<lambda>i. ins_cocktail_id i = ?cid) rows = rows" by simp
  with old rows have eq: "Cocktail_instructions (create_db c db) ?cid = rows"
    by (simp add: Cocktail_instructions_def)
  show "map ins_step_number (Cocktail_instructions (create_db c db) ?cid) =
         map (\<lambda>k. int k + 1) [0..<length (cc_instructions c)]"
    by (simp add: eq st)
  show "map ins_instruction_text (Cocktail_instructions (create_db c db) ?cid) =
         cc_instructions c"
    by (simp add: eq tx)
qed

lemma serialize_line_row:
  assumes "distinct (map ing_id (ingredients db))" and "line_row db cid ing row"
  shows "serialize_ingredient db row =
           Some \<lparr>idoc_name = ic_name ing, idoc_quantity = ic_quantity ing,
                 idoc_unit = ic_unit ing, idoc_notes = ic_notes ing\<rparr>"
proof -
  from assms(2) obtain i where i: "i \<in> set (ingredients db)" "ing_id i = ci_ingredient_id row"
    "ing_name i = ic_name ing"
    by (auto simp: line_row_def)
  from find_distinct_key [OF assms(1) i(1)] i(2)
  have "find (\<lambda>y. ing_id y = ci_ingredient_id row) (ingredients db) = Some i" by simp
  with assms(2) i(3) show ?thesis
    by (simp add: serialize_ingredient_def CocktailIngredient_ingredient_def line_row_def)
qed

lemma those_map_line_rows:
  assumes "distinct (map ing_id (ingredients db))" and "list_all2 (line_row db cid) ings rows"
  shows "those (map (serialize_ingredient db) rows) =
           Some (map (\<lambda>ing. \<lparr>idoc_name = ic_name ing, idoc_quantity = ic_quantity ing,
                             idoc_unit = ic_unit ing, idoc_notes = ic_notes ing\<rparr>) ings)"
  using assms(2)
  by (induction ings rows rule: list_all2_induct) (simp_all add: serialize_line_row [OF assms(1)])

lemma create_cocktail_document:
  assumes "wf_db db"
  shows "fst (create_cocktail c db) =
     Inr \<lparr>doc_id = next_id (map ck_id (cocktails db)),
          doc_title = cc_title c, doc_author = cc_author c,
          doc_description = cc_description c,
          doc_ingredients =
            map (\<lambda>ing. \<lparr>idoc_name = ic_name ing, idoc_quantity = ic_quantity ing,
                         idoc_unit = ic_unit ing, idoc_notes = ic_notes ing\<rparr>)
              (cc_ingredients c),
          doc_instructions = cc_instructions c,
          doc_metadata =
            \<lparr>md_difficulty = metadata_field mc_difficulty c,
             md_glass_type = metadata_field mc_glass_type c,
             md_garnish =
               map gar_name
                 (Cocktail_garnishes (create_db c db) (next_id (map ck_id (cocktails db)))),
             md_tags =
               map tag_name (filter (\<lambda>t. tag_type t = ''tag'')
                 (Cocktail_tags (create_db c db) (next_id (map ck_id (cocktails db))))),
             md_flavor_tags =
               map tag_name (filter (\<lambda>t. tag_type t = ''flavor_tag'')
                 (Cocktail_tags (create_db c db) (next_id (map ck_id (cocktails db))))),
             md_cover_image = metadata_field mc_cover_image c\<rparr>\<rparr>"
proof -
  let ?cid = "next_id (map ck_id (cocktails db))"
  let ?db = "create_db c db"
  from wf_db_create [OF assms] have d: "distinct (map ing_id (ingredients ?db))"
    by (simp add: wf_db_def)
  note th = those_map_line_rows [OF d new_cocktail_ingredients [OF assms, of c]]
  note ins = new_cocktail_instructions [OF assms, of c]
  have "sorted (map ins_step_number (Cocktail_instructions ?db ?cid))"
    unfolding ins(1) by (rule sorted_steps)
  then have "sort_key ins_step_number (Cocktail_instructions ?db ?cid) =
      Cocktail_instructions ?db ?cid"
    by (rule sort_key_id_if_sorted)
  with th ins(2) show ?thesis
    by (simp add: fst_create_cocktail serialize_cocktail_def fst_create_session)
qed

section \<open>Creating and reading back\<close>

lemma get_created_cocktail:
  assumes "wf_db db" and "fst (create_cocktail c db) = Inr d"
  shows "get_cocktail (doc_id d) (create_db c db) = Inr d"
proof -
  let ?row = "fst (create_session c (begin_session db))"
  from assms(2) have ser: "serialize_cocktail (create_db c db) ?row = Some d"
    by (simp add: fst_create_cocktail split: option.splits)
  have "cocktails (create_db c db) = cocktails db @ [?row]"
    using create_session_result(2) [OF assms(1), of c] by (simp add: create_db_eq)
  then have mem: "?row \<in> set (cocktails (create_db c db))" by simp
  from wf_db_create [OF assms(1), of c]
  have "distinct (map ck_id (cocktails (create_db c db)))" by (simp add: wf_db_def)
  from get_cocktail_stored [OF this mem] ser serialize_cocktail_id [OF ser]
  show ?thesis by simp
qed

text \<open>
  Claim C1.  On a well-formed database \<open>create_cocktail\<close> returns a document, which is
  also what \<open>get_cocktail\<close> then returns for its id, and the document has the title,
  author and description of the input, the difficulty, glass type and cover image of
  its metadata (unset when the input has no metadata), and one ingredient entry per
  ingredient line of the input, in order, with the line's name, quantity, unit and notes.
\<close>

theorem create_round_trip:
  assumes "wf_db db"
  shows "\<exists>d. fst (create_cocktail c db) = Inr d \<and>
           get_cocktail (doc_id d) (create_db c db) = Inr d \<and>
           doc_title d = cc_title c \<and> doc_author d = cc_author c \<and>
           doc_description d = cc_description c \<and>
           md_difficulty (doc_metadata d) = metadata_field mc_difficulty c \<and>
           md_glass_type (doc_metadata d) = metadata_field mc_glass_type c \<and>
           md_cover_image (doc_metadata d) = metadata_field mc_cover_image c \<and>
           doc_ingredients d =
             map (\<lambda>ing. \<lparr>idoc_name = ic_name ing, idoc_quantity = ic_quantity ing,
                          idoc_unit = ic_unit ing, idoc_notes = ic_notes ing\<rparr>)
               (cc_ingredients c)"
proof -
  from create_cocktail_document [OF assms, of c] obtain d where
    d: "fst (create_cocktail c db) = Inr d"
    and f: "doc_title d = cc_title c" "doc_author d = cc_author c"
      "doc_description d = cc_description c"
      "md_difficulty (doc_metadata d) = metadata_field mc_difficulty c"
      "md_glass_type (doc_metadata d) = metadata_field mc_glass_type c"
      "md_cover_image (doc_metadata d) = metadata_field mc_cover_image c"
      "doc_ingredients d =
             map (\<lambda>ing. \<lparr>idoc_name = ic_name ing, idoc_quantity = ic_quantity ing,
                          idoc_unit = ic_unit ing, idoc_notes = ic_notes ing\<rparr>)
               (cc_ingredients c)"
    by simp
  from get_created_cocktail [OF assms d] d f show ?thesis by blast
qed

theorem create_round_trip_witness:
  "wf_db empty_database \<and>
   (\<exists>d. fst (create_cocktail mojito empty_database) = Inr d \<and>
      doc_title d = ''Mojito'' \<and> doc_author d = Some ''Ana'' \<and> doc_description d = None \<and>
      md_difficulty (doc_metadata d) = Some ''easy'' \<and>
      md_glass_type (doc_metadata d) = Some ''Highball'' \<and>
      md_cover_image (doc_metadata d) = None \<and>
      doc_ingredients d =
        [\<lparr>idoc_name = ''Mint'', idoc_quantity = Some ''6'', idoc_unit = Some ''leaves'',
          idoc_notes = Some ''muddled''\<rparr>,
         \<lparr>idoc_name = ''Rum'', idoc_quantity = Some ''2'', idoc_unit = Some ''oz'',
          idoc_notes = None\<rparr>,
         \<lparr>idoc_name = ''Mint'', idoc_quantity = Some ''1'', idoc_unit = Some ''sprig'',
          idoc_notes = Some ''on top''\<rparr>])"
proof -
  have wf: "wf_db empty_database"
    by (simp add: wf_db_def wf_links_def empty_database_def)
  from create_round_trip [OF wf, of mojito] obtain d where
    "fst (create_cocktail mojito empty_database) = Inr d"
    "doc_title d = cc_title mojito" "doc_author d = cc_author mojito"
    "doc_description d = cc_description mojito"
    "md_difficulty (doc_metadata d) = metadata_field mc_difficulty mojito"
    "md_glass_type (doc_metadata d) = metadata_field mc_glass_type mojito"
    "md_cover_image (doc_metadata d) = metadata_field mc_cover_image mojito"
    "doc_ingredients d =
       map (\<lambda>ing. \<lparr>idoc_name = ic_name ing, idoc_quantity = ic_quantity ing,
                    idoc_unit = ic_unit ing, idoc_notes = ic_notes ing\<rparr>)
         (cc_ingredients mojito)"
    by blast
  then have "fst (create_cocktail mojito empty_database) = Inr d \<and>
      doc_title d = ''Mojito'' \<and> doc_author d = Some ''Ana'' \<and> doc_description d = None \<and>
      md_difficulty (doc_metadata d) = Some ''easy'' \<and>
      md_glass_type (doc_metadata d) = Some ''Highball'' \<and>
      md_cover_image (doc_metadata d) = None \<and>
      doc_ingredients d =
        [\<lparr>idoc_name = ''Mint'', idoc_quantity = Some ''6'', idoc_unit = Some ''leaves'',
          idoc_notes = Some ''muddled''\<rparr>,
         \<lparr>idoc_name = ''Rum'', idoc_quantity = Some ''2'', idoc_unit = Some ''oz'',
          idoc_notes = None\<rparr>,
         \<lparr>idoc_name = ''Mint'', idoc_quantity = Some ''1'', idoc_unit = Some ''sprig'',
          idoc_notes = Some ''on top''\<rparr>]"
    by (simp add: mojito_def metadata_field_def)
  with wf show ?thesis by blast
qed

text \<open>
  Claim C2.  On a well-formed database the \<open>Instruction\<close> rows of the new cocktail carry
  the step numbers 1, 2, ... in the order of the input list and its texts, and the
  instructions of the returned document, which are the texts of these rows sorted by
  step number, are the input list itself (so they have its length and order, whatever
  the length).
\<close>

theorem step_order_round_trip:
  assumes "wf_db db"
  shows "\<exists>d. fst (create_cocktail c db) = Inr d \<and>
           map ins_step_number (Cocktail_instructions (create_db c db) (doc_id d)) =
             map (\<lambda>k. int k + 1) [0..<length (cc_instructions c)] \<and>
           map ins_instruction_text (Cocktail_instructions (create_db c db) (doc_id d)) =
             cc_instructions c \<and>
           doc_instructions d =
             map ins_instruction_text
               (sort_key ins_step_number (Cocktail_instructions (create_db c db) (doc_id d))) \<and>
           doc_instructions d = cc_instructions c"
proof -
  let ?cid = "next_id (map ck_id (cocktails db))"
  let ?rows = "Cocktail_instructions (create_db c db) ?cid"
  from create_cocktail_document [OF assms, of c] obtain d where
    d: "fst (create_cocktail c db) = Inr d" and i: "doc_id d = ?cid"
    and t: "doc_instructions d = cc_instructions c"
    by simp
  note ins = new_cocktail_instructions [OF assms, of c]
  have "sorted (map ins_step_number ?rows)"
    unfolding ins(1) by (rule sorted_steps)
  then have srt: "sort_key ins_step_number ?rows = ?rows" by (rule sort_key_id_if_sorted)
  have "doc_instructions d = map ins_instruction_text (sort_key ins_step_number ?rows)"
    unfolding srt ins(2) by (rule t)
  with d t ins have "fst (create_cocktail c db) = Inr d \<and>
           map ins_step_number (Cocktail_instructions (create_db c db) (doc_id d)) =
             map (\<lambda>k. int k + 1) [0..<length (cc_instructions c)] \<and>
           map ins_instruction_text (Cocktail_instructions (create_db c db) (doc_id d)) =
             cc_instructions c \<and>
           doc_instructions d =
             map ins_instruction_text
               (sort_key ins_step_number (Cocktail_instructions (create_db c db) (doc_id d))) \<and>
           doc_instructions d = cc_instructions c"
    unfolding i by (intro conjI)
  then show ?thesis by - (rule exI [where x = d], assumption)
qed

theorem step_order_round_trip_witness:
  "wf_db empty_database \<and>
   (\<exists>d. fst (create_cocktail mojito empty_database) = Inr d \<and>
      map ins_step_number (Cocktail_instructions (create_db mojito empty_database) (doc_id d)) =
        [1, 2, 3] \<and>
      doc_instructions d = [''Muddle'', ''Shake'', ''Strain''])"
proof -
  have wf: "wf_db empty_database"
    by (simp add: wf_db_def wf_links_def empty_database_def)
  from step_order_round_trip [OF wf, of mojito] obtain d where
    "fst (create_cocktail mojito empty_database) = Inr d"
    "map ins_step_number (Cocktail_instructions (create_db mojito empty_database) (doc_id d)) =
       map (\<lambda>k. int k + 1) [0..<length (cc_instructions mojito)]"
    "doc_instructions d = cc_instructions mojito"
    by blast
  moreover have "[0..<length (cc_instructions mojito)] = [0, 1, 2]"
    by (simp add: mojito_def upt_rec)
  ultimately have "fst (create_cocktail mojito empty_database) = Inr d \<and>
      map ins_step_number (Cocktail_instructions (create_db mojito empty_database) (doc_id d)) =
        [1, 2, 3] \<and>
      doc_instructions d = [''Muddle'', ''Shake'', ''Strain'']"
    by (simp add: mojito_def)
  with wf show ?thesis
    by - (rule conjI, assumption, rule exI [where x = d], assumption)
qed


lemma same_key_same_row:
  assumes "distinct (map f xs)" and "x \<in> set xs" and "y \<in> set xs" and "f x = f y"
  shows "x = y"
  using assms by (meson distinct_map inj_onD)

text \<open>
  Claim C9.  On a well-formed database the \<open>CocktailIngredient\<close> rows of the new
  cocktail are one per ingredient line of the input, in order, with distinct keys; each
  carries the quantity, unit and notes of its line and refers to a stored ingredient
  with the line's name.  Ingredient names stay unique, so two lines with the same name
  refer to the same ingredient row.
\<close>

theorem duplicate_ingredient_lines:
  assumes "wf_db db"
  shows "list_all2 (line_row (create_db c db) (next_id (map ck_id (cocktails db))))
           (cc_ingredients c)
           (Cocktail_ingredients (create_db c db) (next_id (map ck_id (cocktails db)))) \<and>
         distinct (map ci_id
           (Cocktail_ingredients (create_db c db) (next_id (map ck_id (cocktails db))))) \<and>
         distinct (map ing_name (ingredients (create_db c db))) \<and>
         (\<forall>j < length (cc_ingredients c). \<forall>k < length (cc_ingredients c).
            ic_name (cc_ingredients c ! j) = ic_name (cc_ingredients c ! k) \<longrightarrow>
            ci_ingredient_id
              (Cocktail_ingredients (create_db c db) (next_id (map ck_id (cocktails db))) ! j) =
            ci_ingredient_id
              (Cocktail_ingredients (create_db c db) (next_id (map ck_id (cocktails db))) ! k))"
proof -
  let ?db = "create_db c db"
  let ?cid = "next_id (map ck_id (cocktails db))"
  let ?rows = "Cocktail_ingredients ?db ?cid"
  note lr = new_cocktail_ingredients [OF assms, of c]
  from wf_db_create [OF assms, of c]
  have dn: "distinct (map ing_name (ingredients ?db))"
    and dk: "distinct (map ci_id (cocktail_ingredients ?db))"
    by (simp_all add: wf_db_def)
  from dk have dr: "distinct (map ci_id ?rows)"
    unfolding Cocktail_ingredients_def by (rule distinct_map_filter)
  have same: "ci_ingredient_id (?rows ! j) = ci_ingredient_id (?rows ! k)"
    if "j < length (cc_ingredients c)" "k < length (cc_ingredients c)"
      "ic_name (cc_ingredients c ! j) = ic_name (cc_ingredients c ! k)" for j k
  proof -
    from lr that(1) have "line_row ?db ?cid (cc_ingredients c ! j) (?rows ! j)"
      by (simp add: list_all2_conv_all_nth)
    then obtain a where a: "a \<in> set (ingredients ?db)" "ing_id a = ci_ingredient_id (?rows ! j)"
      "ing_name a = ic_name (cc_ingredients c ! j)"
      by (auto simp: line_row_def)
    from lr that(2) have "line_row ?db ?cid (cc_ingredients c ! k) (?rows ! k)"
      by (simp add: list_all2_conv_all_nth)
    then obtain b where b: "b \<in> set (ingredients ?db)" "ing_id b = ci_ingredient_id (?rows ! k)"
      "ing_name b = ic_name (cc_ingredients c ! k)"
      by (auto simp: line_row_def)
    from a(3) b(3) that(3) have "ing_name a = ing_name b" by simp
    from same_key_same_row [OF dn a(1) b(1) this] a(2) b(2) show ?thesis by simp
  qed
  from lr dr dn same show ?thesis by blast
qed

theorem duplicate_ingredient_lines_witness:
  "wf_db empty_database \<and>
   length (Cocktail_ingredients (create_db mojito empty_database) 1) = 3 \<and>
   ci_ingredient_id (Cocktail_ingredients (create_db mojito empty_database) 1 ! 0) =
   ci_ingredient_id (Cocktail_ingredients (create_db mojito empty_database) 1 ! 2) \<and>
   ci_quantity (Cocktail_ingredients (create_db mojito empty_database) 1 ! 0) = Some ''6'' \<and>
   ci_quantity (Cocktail_ingredients (create_db mojito empty_database) 1 ! 2) = Some ''1''"
proof -
  have wf: "wf_db empty_database"
    by (simp add: wf_db_def wf_links_def empty_database_def)
  let ?rows = "Cocktail_ingredients (create_db mojito empty_database) 1"
  have cid: "next_id (map ck_id (cocktails empty_database)) = 1"
    by (simp add: next_id_def empty_database_def)
  note th = duplicate_ingredient_lines [OF wf, of mojito, unfolded cid]
  from th have lr: "list_all2 (line_row (create_db mojito empty_database) 1)
      (cc_ingredients mojito) ?rows" by (rule conjunct1)
  have n: "length (cc_ingredients mojito) = 3" by (simp add: mojito_def)
  from list_all2_lengthD [OF lr] n have len: "length ?rows = 3" by simp
  have "line_row (create_db mojito empty_database) 1 (cc_ingredients mojito ! 0) (?rows ! 0)"
    by (rule list_all2_nthD [OF lr]) (simp add: n)
  then have "ci_quantity (?rows ! 0) = ic_quantity (cc_ingredients mojito ! 0)"
    by (simp add: line_row_def)
  then have q0: "ci_quantity (?rows ! 0) = Some ''6''"
    by (simp add: mojito_def)
  have "line_row (create_db mojito empty_database) 1 (cc_ingredients mojito ! 2) (?rows ! 2)"
    by (rule list_all2_nthD [OF lr]) (simp add: n)
  then have "ci_quantity (?rows ! 2) = ic_quantity (cc_ingredients mojito ! 2)"
    by (simp add: line_row_def)
  then have q2: "ci_quantity (?rows ! 2) = Some ''1''"
    by (simp add: mojito_def)
  from th have "\<forall>j < length (cc_ingredients mojito). \<forall>k < length (cc_ingredients mojito).
            ic_name (cc_ingredients mojito ! j) = ic_name (cc_ingredients mojito ! k) \<longrightarrow>
            ci_ingredient_id (?rows ! j) = ci_ingredient_id (?rows ! k)"
    by blast
  then have "0 < length (cc_ingredients mojito) \<longrightarrow> 2 < length (cc_ingredients mojito) \<longrightarrow>
      ic_name (cc_ingredients mojito ! 0) = ic_name (cc_ingredients mojito ! 2) \<longrightarrow>
      ci_ingredient_id (?rows ! 0) = ci_ingredient_id (?rows ! 2)"
    by blast
  moreover have "ic_name (cc_ingredients mojito ! 0) = ic_name (cc_ingredients mojito ! 2)"
    by (simp add: mojito_def)
  ultimately have same: "ci_ingredient_id (?rows ! 0) = ci_ingredient_id (?rows ! 2)"
    by (simp add: n)
  from wf len same q0 q2 show ?thesis by (intro conjI)
qed

section \<open>Garnishes and tags of a new cocktail\<close>

lemma distinct_secondary_join:
  assumes "distinct links" and "distinct (map pk rows)"
  shows "distinct (secondary_join links pk rows cid)"
  using assms(1)
proof (induction links)
  case Nil
  show ?case by (simp add: secondary_join_def)
next
  case (Cons l links)
  obtain c k where l: "l = (c, k)" by (cases l)
  have split: "secondary_join (l # links) pk rows cid =
      (if c = cid then filter (\<lambda>r. pk r = k) rows else []) @ secondary_join links pk rows cid"
    by (simp add: secondary_join_def l)
  from assms(2) have dr: "distinct rows" by (simp add: distinct_map)
  from Cons have ih: "distinct (secondary_join links pk rows cid)" and nl: "l \<notin> set links"
    by simp_all
  have "r \<notin> set (secondary_join links pk rows cid)" if "c = cid" "pk r = k" for r
    using nl that by (auto simp: set_secondary_join l)
  with ih dr show ?case unfolding split by auto
qed

lemma new_cocktail_garnishes:
  assumes "wf_db db"
  shows "\<exists>gs. set gs \<subseteq> set (garnishes (create_db c db)) \<and>
           gar_name ` set gs = set (metadata_list mc_garnish c) \<and>
           set (Cocktail_garnishes (create_db c db) (next_id (map ck_id (cocktails db)))) = set gs \<and>
           (\<forall>g \<in> set gs. (next_id (map ck_id (cocktails db)), gar_id g) \<in>
              set (cocktail_garnishes (create_db c db)))"
proof -
  let ?db = "create_db c db" and ?cid = "next_id (map ck_id (cocktails db))"
  from create_session_result(6) [OF assms, of c] obtain gs where
    gs: "set gs \<subseteq> set (garnishes ?db)" "gar_name ` set gs = set (metadata_list mc_garnish c)"
    and l: "set (cocktail_garnishes ?db) =
             set (cocktail_garnishes db) \<union> (\<lambda>g. (?cid, gar_id g)) ` set gs"
    unfolding create_db_eq by blast
  from assms have refs: "\<forall>l \<in> set (cocktail_garnishes db). fst l \<in> ck_id ` set (cocktails db)"
    by (simp add: wf_db_def wf_links_def)
  have old: "(?cid, k) \<notin> set (cocktail_garnishes db)" for k
  proof
    assume "(?cid, k) \<in> set (cocktail_garnishes db)"
    with refs have "fst (?cid, k) \<in> ck_id ` set (cocktails db)" by (rule bspec)
    then show False by simp
  qed
  from wf_db_create [OF assms, of c] have d: "distinct (map gar_id (garnishes ?db))"
    by (simp add: wf_db_def)
  have "set (Cocktail_garnishes ?db ?cid) = set gs"
  proof (intro set_eqI iffI)
    fix r assume "r \<in> set (Cocktail_garnishes ?db ?cid)"
    then have r: "r \<in> set (garnishes ?db)"
      and lk: "(?cid, gar_id r) \<in> set (cocktail_garnishes ?db)"
      by (simp_all add: Cocktail_garnishes_def set_secondary_join)
    from lk [unfolded l] old have "(?cid, gar_id r) \<in> (\<lambda>g. (?cid, gar_id g)) ` set gs"
      by simp
    then obtain g where g: "g \<in> set gs" "gar_id r = gar_id g" by blast
    with gs(1) have "g \<in> set (garnishes ?db)" by blast
    from same_key_same_row [OF d r this g(2)] g(1) show "r \<in> set gs" by simp
  next
    fix r assume "r \<in> set gs"
    with gs(1) show "r \<in> set (Cocktail_garnishes ?db ?cid)"
      unfolding Cocktail_garnishes_def set_secondary_join l by blast
  qed
  moreover have "\<forall>g \<in> set gs. (?cid, gar_id g) \<in> set (cocktail_garnishes ?db)"
    unfolding l by blast
  ultimately have "set gs \<subseteq> set (garnishes ?db) \<and>
           gar_name ` set gs = set (metadata_list mc_garnish c) \<and>
           set (Cocktail_garnishes ?db ?cid) = set gs \<and>
           (\<forall>g \<in> set gs. (?cid, gar_id g) \<in> set (cocktail_garnishes ?db))"
    using gs by (intro conjI)
  then show ?thesis by - (rule exI [where x = gs], assumption)
qed

lemma new_cocktail_tags:
  assumes "wf_db db"
  shows "\<exists>ts fs. set ts \<subseteq> set (tags (create_db c db)) \<and> set fs \<subseteq> set (tags (create_db c db)) \<and>
           tag_name ` set ts = set (metadata_list mc_tags c) \<and>
           (\<forall>t \<in> set ts. tag_type t = ''tag'') \<and>
           tag_name ` set fs = set (metadata_list mc_flavor_tags c) \<and>
           (\<forall>t \<in> set fs. tag_type t = ''flavor_tag'') \<and>
           set (Cocktail_tags (create_db c db) (next_id (map ck_id (cocktails db)))) =
             set ts \<union> set fs \<and>
           (\<forall>t \<in> set ts \<union> set fs. (next_id (map ck_id (cocktails db)), tag_id t) \<in>
              set (cocktail_tags (create_db c db)))"
proof -
  let ?db = "create_db c db" and ?cid = "next_id (map ck_id (cocktails db))"
  from create_session_result(7) [OF assms, of c, folded create_db_eq]
  obtain ts where "\<exists>fs. set ts \<subseteq> set (tags ?db) \<and> set fs \<subseteq> set (tags ?db) \<and>
           tag_name ` set ts = set (metadata_list mc_tags c) \<and>
           (\<forall>t \<in> set ts. tag_type t = ''tag'') \<and>
           tag_name ` set fs = set (metadata_list mc_flavor_tags c) \<and>
           (\<forall>t \<in> set fs. tag_type t = ''flavor_tag'') \<and>
           set (cocktail_tags ?db) =
             set (cocktail_tags db) \<union> (\<lambda>t. (?cid, tag_id t)) ` (set ts \<union> set fs)" ..
  then obtain fs where all: "set ts \<subseteq> set (tags ?db) \<and> set fs \<subseteq> set (tags ?db) \<and>
           tag_name ` set ts = set (metadata_list mc_tags c) \<and>
           (\<forall>t \<in> set ts. tag_type t = ''tag'') \<and>
           tag_name ` set fs = set (metadata_list mc_flavor_tags c) \<and>
           (\<forall>t \<in> set fs. tag_type t = ''flavor_tag'') \<and>
           set (cocktail_tags ?db) =
             set (cocktail_tags db) \<union> (\<lambda>t. (?cid, tag_id t)) ` (set ts \<union> set fs)" ..
  note ts = all [THEN conjunct1] all [THEN conjunct2, THEN conjunct2, THEN conjunct1] all [THEN conjunct2, THEN conjunct2, THEN conjunct2, THEN conjunct1]
  note fs = all [THEN conjunct2, THEN conjunct1] all [THEN conjunct2, THEN conjunct2, THEN conjunct2, THEN conjunct2, THEN conjunct1] all [THEN conjunct2, THEN conjunct2, THEN conjunct2, THEN conjunct2, THEN conjunct2, THEN conjunct1]
  note l = all [THEN conjunct2, THEN conjunct2, THEN conjunct2, THEN conjunct2, THEN conjunct2, THEN conjunct2]
  from assms have refs: "\<forall>l \<in> set (cocktail_tags db). fst l \<in> ck_id ` set (cocktails db)"
    by (simp add: wf_db_def wf_links_def)
  have old: "(?cid, k) \<notin> set (cocktail_tags db)" for k
  proof
    assume "(?cid, k) \<in> set (cocktail_tags db)"
    with refs have "fst (?cid, k) \<in> ck_id ` set (cocktails db)" by (rule bspec)
    then show False by simp
  qed
  from wf_db_create [OF assms, of c] have d: "distinct (map tag_id (tags ?db))"
    by (simp add: wf_db_def)
  have "set (Cocktail_tags ?db ?cid) = set ts \<union> set fs"
  proof (intro set_eqI iffI)
    fix r assume "r \<in> set (Cocktail_tags ?db ?cid)"
    then have r: "r \<in> set (tags ?db)"
      and lk: "(?cid, tag_id r) \<in> set (cocktail_tags ?db)"
      by (simp_all add: Cocktail_tags_def set_secondary_join)
    from lk [unfolded l] old
    have "(?cid, tag_id r) \<in> (\<lambda>t. (?cid, tag_id t)) ` (set ts \<union> set fs)"
      by simp
    then obtain t where t: "t \<in> set ts \<union> set fs" "tag_id r = tag_id t" by blast
    with ts(1) fs(1) have "t \<in> set (tags ?db)" by blast
    from same_key_same_row [OF d r this t(2)] t(1) show "r \<in> set ts \<union> set fs" by simp
  next
    fix r assume "r \<in> set ts \<union> set fs"
    with ts(1) fs(1) show "r \<in> set (Cocktail_tags ?db ?cid)"
      unfolding Cocktail_tags_def set_secondary_join l by blast
  qed
  moreover have "\<forall>t \<in> set ts \<union> set fs. (?cid, tag_id t) \<in> set (cocktail_tags ?db)"
    unfolding l by blast
  ultimately have "set ts \<subseteq> set (tags ?db) \<and> set fs \<subseteq> set (tags ?db) \<and>
           tag_name ` set ts = set (metadata_list mc_tags c) \<and>
           (\<forall>t \<in> set ts. tag_type t = ''tag'') \<and>
           tag_name ` set fs = set (metadata_list mc_flavor_tags c) \<and>
           (\<forall>t \<in> set fs. tag_type t = ''flavor_tag'') \<and>
           set (Cocktail_tags ?db ?cid) = set ts \<union> set fs \<and>
           (\<forall>t \<in> set ts \<union> set fs. (?cid, tag_id t) \<in> set (cocktail_tags ?db))"
    using ts fs by (intro conjI)
  then show ?thesis
    by - (rule exI [where x = ts], rule exI [where x = fs], assumption)
qed

lemma distinct_map_subset:
  assumes "distinct xs" and "set xs \<subseteq> A" and "inj_on f A"
  shows "distinct (map f xs)"
  using assms by (auto simp: distinct_map intro: inj_on_subset)

lemma serialized_tags:
  assumes "serialize_cocktail db ck = Some d"
  shows "set (md_tags (doc_metadata d)) =
           tag_name ` {t \<in> set (tags db).
             (ck_id ck, tag_id t) \<in> set (cocktail_tags db) \<and> tag_type t = ''tag''}"
    and "set (md_flavor_tags (doc_metadata d)) =
           tag_name ` {t \<in> set (tags db).
             (ck_id ck, tag_id t) \<in> set (cocktail_tags db) \<and> tag_type t = ''flavor_tag''}"
    and "set (md_garnish (doc_metadata d)) =
           gar_name ` {g \<in> set (garnishes db). (ck_id ck, gar_id g) \<in> set (cocktail_garnishes db)}"
proof -
  from assms have
    t: "md_tags (doc_metadata d) =
          map tag_name (filter (\<lambda>t. tag_type t = ''tag'') (Cocktail_tags db (ck_id ck)))"
    and f: "md_flavor_tags (doc_metadata d) =
          map tag_name (filter (\<lambda>t. tag_type t = ''flavor_tag'') (Cocktail_tags db (ck_id ck)))"
    and g: "md_garnish (doc_metadata d) = map gar_name (Cocktail_garnishes db (ck_id ck))"
    by (auto simp: serialize_cocktail_def split: option.splits)
  show "set (md_tags (doc_metadata d)) =
           tag_name ` {t \<in> set (tags db).
             (ck_id ck, tag_id t) \<in> set (cocktail_tags db) \<and> tag_type t = ''tag''}"
    unfolding t Cocktail_tags_def by (auto simp: set_secondary_join)
  show "set (md_flavor_tags (doc_metadata d)) =
           tag_name ` {t \<in> set (tags db).
             (ck_id ck, tag_id t) \<in> set (cocktail_tags db) \<and> tag_type t = ''flavor_tag''}"
    unfolding f Cocktail_tags_def by (auto simp: set_secondary_join)
  show "set (md_garnish (doc_metadata d)) =
           gar_name ` {g \<in> set (garnishes db). (ck_id ck, gar_id g) \<in> set (cocktail_garnishes db)}"
    unfolding g Cocktail_garnishes_def by (auto simp: set_secondary_join)
qed

lemma created_metadata_lists:
  assumes "wf_db db" and "fst (create_cocktail c db) = Inr d"
  shows "set (md_garnish (doc_metadata d)) = set (metadata_list mc_garnish c)"
    and "set (md_tags (doc_metadata d)) = set (metadata_list mc_tags c)"
    and "set (md_flavor_tags (doc_metadata d)) = set (metadata_list mc_flavor_tags c)"
    and "distinct (md_garnish (doc_metadata d))"
    and "distinct (md_tags (doc_metadata d))"
    and "distinct (md_flavor_tags (doc_metadata d))"
proof -
  let ?db = "create_db c db" and ?cid = "next_id (map ck_id (cocktails db))"
  note dd = Inr_inject [OF trans [OF assms(2) [symmetric] create_cocktail_document [OF assms(1), of c]]]
  have g: "md_garnish (doc_metadata d) = map gar_name (Cocktail_garnishes ?db ?cid)"
    by (subst dd) simp
  have t: "md_tags (doc_metadata d) =
          map tag_name (filter (\<lambda>t. tag_type t = ''tag'') (Cocktail_tags ?db ?cid))"
    by (subst dd) simp
  have f: "md_flavor_tags (doc_metadata d) =
          map tag_name (filter (\<lambda>t. tag_type t = ''flavor_tag'') (Cocktail_tags ?db ?cid))"
    by (subst dd) simp
  from new_cocktail_garnishes [OF assms(1), of c] obtain gs where
    allg: "set gs \<subseteq> set (garnishes ?db) \<and>
           gar_name ` set gs = set (metadata_list mc_garnish c) \<and>
           set (Cocktail_garnishes ?db ?cid) = set gs \<and>
           (\<forall>g \<in> set gs. (?cid, gar_id g) \<in> set (cocktail_garnishes ?db))" ..
  note gs = allg [THEN conjunct2, THEN conjunct1]
    allg [THEN conjunct2, THEN conjunct2, THEN conjunct1]
  from new_cocktail_tags [OF assms(1), of c] obtain ts where
    "\<exists>fs. set ts \<subseteq> set (tags ?db) \<and> set fs \<subseteq> set (tags ?db) \<and>
           tag_name ` set ts = set (metadata_list mc_tags c) \<and>
           (\<forall>t \<in> set ts. tag_type t = ''tag'') \<and>
           tag_name ` set fs = set (metadata_list mc_flavor_tags c) \<and>
           (\<forall>t \<in> set fs. tag_type t = ''flavor_tag'') \<and>
           set (Cocktail_tags ?db ?cid) = set ts \<union> set fs \<and>
           (\<forall>t \<in> set ts \<union> set fs. (?cid, tag_id t) \<in> set (cocktail_tags ?db))" ..
  then obtain fs where
    allt: "set ts \<subseteq> set (tags ?db) \<and> set fs \<subseteq> set (tags ?db) \<and>
           tag_name ` set ts = set (metadata_list mc_tags c) \<and>
           (\<forall>t \<in> set ts. tag_type t = ''tag'') \<and>
           tag_name ` set fs = set (metadata_list mc_flavor_tags c) \<and>
           (\<forall>t \<in> set fs. tag_type t = ''flavor_tag'') \<and>
           set (Cocktail_tags ?db ?cid) = set ts \<union> set fs \<and>
           (\<forall>t \<in> set ts \<union> set fs. (?cid, tag_id t) \<in> set (cocktail_tags ?db))" ..
  note ts = allt [THEN conjunct2, THEN conjunct2, THEN conjunct1]
    allt [THEN conjunct2, THEN conjunct2, THEN conjunct2, THEN conjunct1]
  note fs = allt [THEN conjunct2, THEN conjunct2, THEN conjunct2, THEN conjunct2, THEN conjunct1]
    allt [THEN conjunct2, THEN conjunct2, THEN conjunct2, THEN conjunct2, THEN conjunct2,
      THEN conjunct1]
  note j = allt [THEN conjunct2, THEN conjunct2, THEN conjunct2, THEN conjunct2, THEN conjunct2,
      THEN conjunct2, THEN conjunct1]
  show "set (md_garnish (doc_metadata d)) = set (metadata_list mc_garnish c)"
    unfolding g using gs by simp
  have ne: "''flavor_tag'' \<noteq> ''tag''" by simp
  have "{t \<in> set ts \<union> set fs. tag_type t = ''tag''} = set ts"
  proof (intro set_eqI iffI)
    fix x assume "x \<in> {t \<in> set ts \<union> set fs. tag_type t = ''tag''}"
    then have x: "x \<in> set ts \<union> set fs" "tag_type x = ''tag''" by simp_all
    show "x \<in> set ts"
    proof (rule ccontr)
      assume "x \<notin> set ts"
      with x(1) have "x \<in> set fs" by simp
      with fs(2) have "tag_type x = ''flavor_tag''" by (rule bspec)
      with x(2) ne show False by simp
    qed
  next
    fix x assume x: "x \<in> set ts"
    with ts(2) have "tag_type x = ''tag''" by (rule bspec)
    with x show "x \<in> {t \<in> set ts \<union> set fs. tag_type t = ''tag''}" by simp
  qed
  then have "set (filter (\<lambda>t. tag_type t = ''tag'') (Cocktail_tags ?db ?cid)) = set ts"
    unfolding set_filter j .
  then show "set (md_tags (doc_metadata d)) = set (metadata_list mc_tags c)"
    unfolding t set_map ts(1) [symmetric] by (rule arg_cong)
  have "{t \<in> set ts \<union> set fs. tag_type t = ''flavor_tag''} = set fs"
  proof (intro set_eqI iffI)
    fix x assume "x \<in> {t \<in> set ts \<union> set fs. tag_type t = ''flavor_tag''}"
    then have x: "x \<in> set ts \<union> set fs" "tag_type x = ''flavor_tag''" by simp_all
    show "x \<in> set fs"
    proof (rule ccontr)
      assume "x \<notin> set fs"
      with x(1) have "x \<in> set ts" by simp
      with ts(2) have "tag_type x = ''tag''" by (rule bspec)
      with x(2) ne show False by simp
    qed
  next
    fix x assume x: "x \<in> set fs"
    with fs(2) have "tag_type x = ''flavor_tag''" by (rule bspec)
    with x show "x \<in> {t \<in> set ts \<union> set fs. tag_type t = ''flavor_tag''}" by simp
  qed
  then have "set (filter (\<lambda>t. tag_type t = ''flavor_tag'') (Cocktail_tags ?db ?cid)) = set fs"
    unfolding set_filter j .
  then show "set (md_flavor_tags (doc_metadata d)) = set (metadata_list mc_flavor_tags c)"
    unfolding f set_map fs(1) [symmetric] by (rule arg_cong)
  from wf_db_create [OF assms(1), of c] have
    dg: "distinct (map gar_id (garnishes ?db))" "distinct (map gar_name (garnishes ?db))"
    and dt: "distinct (map tag_id (tags ?db))"
      "distinct (map (\<lambda>t. (tag_name t, tag_type t)) (tags ?db))"
    and dl: "distinct (cocktail_garnishes ?db)" "distinct (cocktail_tags ?db)"
    by (simp_all add: wf_db_def wf_links_def)
  have jg: "distinct (Cocktail_garnishes ?db ?cid)"
    unfolding Cocktail_garnishes_def by (rule distinct_secondary_join [OF dl(1) dg(1)])
  have jt: "distinct (Cocktail_tags ?db ?cid)"
    unfolding Cocktail_tags_def by (rule distinct_secondary_join [OF dl(2) dt(1)])
  have sg: "set (Cocktail_garnishes ?db ?cid) \<subseteq> set (garnishes ?db)"
    by (auto simp: Cocktail_garnishes_def set_secondary_join)
  have st: "set (Cocktail_tags ?db ?cid) \<subseteq> set (tags ?db)"
    by (auto simp: Cocktail_tags_def set_secondary_join)
  from dg(2) have "inj_on gar_name (set (garnishes ?db))" by (simp add: distinct_map)
  with jg sg show "distinct (md_garnish (doc_metadata d))"
    unfolding g by (rule distinct_map_subset)
  from dt(2) have inj: "inj_on (\<lambda>t. (tag_name t, tag_type t)) (set (tags ?db))"
    by (simp add: distinct_map)
  have injt: "inj_on tag_name {t \<in> set (tags ?db). tag_type t = ty}" for ty
    using inj by (auto simp: inj_on_def)
  have "distinct (filter (\<lambda>t. tag_type t = ''tag'') (Cocktail_tags ?db ?cid))"
    using jt by simp
  moreover have "set (filter (\<lambda>t. tag_type t = ''tag'') (Cocktail_tags ?db ?cid)) \<subseteq>
      {t \<in> set (tags ?db). tag_type t = ''tag''}"
    using st by auto
  ultimately show "distinct (md_tags (doc_metadata d))"
    unfolding t using injt by (rule distinct_map_subset)
  have "distinct (filter (\<lambda>t. tag_type t = ''flavor_tag'') (Cocktail_tags ?db ?cid))"
    using jt by simp
  moreover have "set (filter (\<lambda>t. tag_type t = ''flavor_tag'') (Cocktail_tags ?db ?cid)) \<subseteq>
      {t \<in> set (tags ?db). tag_type t = ''flavor_tag''}"
    using st by auto
  ultimately show "distinct (md_flavor_tags (doc_metadata d))"
    unfolding f using injt by (rule distinct_map_subset)
qed

section \<open>Garnish and tag links\<close>



text \<open>
  Claim C5.  The \<open>tags\<close> list of a document holds exactly the names of the tags linked
  to the cocktail whose type is \<open>'tag'\<close>, and the \<open>flavor_tags\<close> list exactly those
  whose type is \<open>'flavor_tag'\<close>: the association row carries no flag, the type of the
  tag row alone decides.  After \<open>create_cocktail\<close> on a well-formed database the two
  lists of the returned document hold the names of the two input lists, and a name given
  in both is stored as two tag rows with different keys, one of each type, both linked
  to the new cocktail.
\<close>

theorem tag_partition:
  "(serialize_cocktail db0 ck = Some d0 \<longrightarrow>
      set (md_tags (doc_metadata d0)) =
        tag_name ` {t \<in> set (tags db0).
          (ck_id ck, tag_id t) \<in> set (cocktail_tags db0) \<and> tag_type t = ''tag''} \<and>
      set (md_flavor_tags (doc_metadata d0)) =
        tag_name ` {t \<in> set (tags db0).
          (ck_id ck, tag_id t) \<in> set (cocktail_tags db0) \<and> tag_type t = ''flavor_tag''}) \<and>
   (wf_db db \<longrightarrow>
      (\<exists>d. fst (create_cocktail c db) = Inr d \<and>
         set (md_tags (doc_metadata d)) = set (metadata_list mc_tags c) \<and>
         set (md_flavor_tags (doc_metadata d)) = set (metadata_list mc_flavor_tags c)) \<and>
      (\<forall>n \<in> set (metadata_list mc_tags c) \<inter> set (metadata_list mc_flavor_tags c).
         \<exists>t \<in> set (tags (create_db c db)). \<exists>f \<in> set (tags (create_db c db)).
           tag_name t = n \<and> tag_type t = ''tag'' \<and>
           tag_name f = n \<and> tag_type f = ''flavor_tag'' \<and> tag_id t \<noteq> tag_id f \<and>
           (next_id (map ck_id (cocktails db)), tag_id t) \<in> set (cocktail_tags (create_db c db)) \<and>
           (next_id (map ck_id (cocktails db)), tag_id f) \<in> set (cocktail_tags (create_db c db))))"
proof (intro conjI impI ballI)
  assume "serialize_cocktail db0 ck = Some d0"
  then show "set (md_tags (doc_metadata d0)) =
        tag_name ` {t \<in> set (tags db0).
          (ck_id ck, tag_id t) \<in> set (cocktail_tags db0) \<and> tag_type t = ''tag''}"
    by (rule serialized_tags(1))
next
  assume "serialize_cocktail db0 ck = Some d0"
  then show "set (md_flavor_tags (doc_metadata d0)) =
        tag_name ` {t \<in> set (tags db0).
          (ck_id ck, tag_id t) \<in> set (cocktail_tags db0) \<and> tag_type t = ''flavor_tag''}"
    by (rule serialized_tags(2))
next
  assume wf: "wf_db db"
  from create_cocktail_document [OF wf, of c] obtain d where
    d: "fst (create_cocktail c db) = Inr d" ..
  note ml = created_metadata_lists [OF wf d]
  from d ml(2,3) have "fst (create_cocktail c db) = Inr d \<and>
         set (md_tags (doc_metadata d)) = set (metadata_list mc_tags c) \<and>
         set (md_flavor_tags (doc_metadata d)) = set (metadata_list mc_flavor_tags c)"
    by (intro conjI)
  then show "\<exists>d. fst (create_cocktail c db) = Inr d \<and>
         set (md_tags (doc_metadata d)) = set (metadata_list mc_tags c) \<and>
         set (md_flavor_tags (doc_metadata d)) = set (metadata_list mc_flavor_tags c)"
    by - (rule exI [where x = d], assumption)
next
  fix n
  assume wf: "wf_db db"
    and n: "n \<in> set (metadata_list mc_tags c) \<inter> set (metadata_list mc_flavor_tags c)"
  let ?db = "create_db c db" and ?cid = "next_id (map ck_id (cocktails db))"
  from new_cocktail_tags [OF wf, of c] obtain ts where
    "\<exists>fs. set ts \<subseteq> set (tags ?db) \<and> set fs \<subseteq> set (tags ?db) \<and>
           tag_name ` set ts = set (metadata_list mc_tags c) \<and>
           (\<forall>t \<in> set ts. tag_type t = ''tag'') \<and>
           tag_name ` set fs = set (metadata_list mc_flavor_tags c) \<and>
           (\<forall>t \<in> set fs. tag_type t = ''flavor_tag'') \<and>
           set (Cocktail_tags ?db ?cid) = set ts \<union> set fs \<and>
           (\<forall>t \<in> set ts \<union> set fs. (?cid, tag_id t) \<in> set (cocktail_tags ?db))" ..
  then obtain fs where
    allt: "set ts \<subseteq> set (tags ?db) \<and> set fs \<subseteq> set (tags ?db) \<and>
           tag_name ` set ts = set (metadata_list mc_tags c) \<and>
           (\<forall>t \<in> set ts. tag_type t = ''tag'') \<and>
           tag_name ` set fs = set (metadata_list mc_flavor_tags c) \<and>
           (\<forall>t \<in> set fs. tag_type t = ''flavor_tag'') \<and>
           set (Cocktail_tags ?db ?cid) = set ts \<union> set fs \<and>
           (\<forall>t \<in> set ts \<union> set fs. (?cid, tag_id t) \<in> set (cocktail_tags ?db))" ..
  note ts = allt [THEN conjunct1] allt [THEN conjunct2, THEN conjunct2, THEN conjunct1]
    allt [THEN conjunct2, THEN conjunct2, THEN conjunct2, THEN conjunct1]
  note fs = allt [THEN conjunct2, THEN conjunct1]
    allt [THEN conjunct2, THEN conjunct2, THEN conjunct2, THEN conjunct2, THEN conjunct1]
    allt [THEN conjunct2, THEN conjunct2, THEN conjunct2, THEN conjunct2, THEN conjunct2,
      THEN conjunct1]
  note lk = allt [THEN conjunct2, THEN conjunct2, THEN conjunct2, THEN conjunct2, THEN conjunct2,
      THEN conjunct2, THEN conjunct2]
  from n ts(2) have "n \<in> tag_name ` set ts" by simp
  then obtain t where t: "t \<in> set ts" "tag_name t = n" by auto
  from n fs(2) have "n \<in> tag_name ` set fs" by simp
  then obtain f where f: "f \<in> set fs" "tag_name f = n" by auto
  from ts(3) t(1) have tt: "tag_type t = ''tag''" by (rule bspec)
  from fs(3) f(1) have tf: "tag_type f = ''flavor_tag''" by (rule bspec)
  from ts(1) t(1) have mt: "t \<in> set (tags ?db)" by (rule subsetD)
  from fs(1) f(1) have mf: "f \<in> set (tags ?db)" by (rule subsetD)
  from t(1) have "t \<in> set ts \<union> set fs" by simp
  with lk have lt: "(?cid, tag_id t) \<in> set (cocktail_tags ?db)" by (rule bspec)
  from f(1) have "f \<in> set ts \<union> set fs" by simp
  with lk have lf: "(?cid, tag_id f) \<in> set (cocktail_tags ?db)" by (rule bspec)
  from wf_db_create [OF wf, of c] have dt: "distinct (map tag_id (tags ?db))"
    by (simp add: wf_db_def)
  have ne: "tag_id t \<noteq> tag_id f"
  proof
    assume "tag_id t = tag_id f"
    from same_key_same_row [OF dt mt mf this] tt tf show False by simp
  qed
  from t(2) tt f(2) tf ne lt lf
  have "tag_name t = n \<and> tag_type t = ''tag'' \<and>
           tag_name f = n \<and> tag_type f = ''flavor_tag'' \<and> tag_id t \<noteq> tag_id f \<and>
           (?cid, tag_id t) \<in> set (cocktail_tags ?db) \<and>
           (?cid, tag_id f) \<in> set (cocktail_tags ?db)"
    by (intro conjI)
  with mt mf show "\<exists>t \<in> set (tags ?db). \<exists>f \<in> set (tags ?db).
           tag_name t = n \<and> tag_type t = ''tag'' \<and>
           tag_name f = n \<and> tag_type f = ''flavor_tag'' \<and> tag_id t \<noteq> tag_id f \<and>
           (?cid, tag_id t) \<in> set (cocktail_tags ?db) \<and>
           (?cid, tag_id f) \<in> set (cocktail_tags ?db)"
    by - (rule bexI [where x = t], rule bexI [where x = f], assumption+)
qed

theorem tag_partition_witness:
  "wf_db empty_database \<and>
   (\<exists>d0. serialize_cocktail mojito_db (hd (cocktails mojito_db)) = Some d0 \<and>
      set (md_tags (doc_metadata d0)) = {''Sweet'', ''Classic''} \<and>
      set (md_flavor_tags (doc_metadata d0)) = {''Sweet''}) \<and>
   (\<exists>d. fst (create_cocktail mojito empty_database) = Inr d \<and>
      set (md_tags (doc_metadata d)) = {''Sweet'', ''Classic''} \<and>
      set (md_flavor_tags (doc_metadata d)) = {''Sweet''}) \<and>
   (\<exists>t \<in> set (tags (create_db mojito empty_database)).
      \<exists>f \<in> set (tags (create_db mojito empty_database)).
        tag_name t = ''Sweet'' \<and> tag_type t = ''tag'' \<and>
        tag_name f = ''Sweet'' \<and> tag_type f = ''flavor_tag'' \<and> tag_id t \<noteq> tag_id f)"
proof -
  have wf: "wf_db empty_database"
    by (simp add: wf_db_def wf_links_def empty_database_def)
  have wfm: "wf_db mojito_db"
    by (simp add: wf_db_def wf_links_def mojito_db_def)
  from serialize_cocktail_Some [OF wfm] obtain d0 where
    ser: "serialize_cocktail mojito_db (hd (cocktails mojito_db)) = Some d0" ..
  note th0 = tag_partition [of mojito_db "hd (cocktails mojito_db)" d0 empty_database mojito,
      THEN conjunct1, rule_format, OF ser]
  have s1: "tag_name ` {t \<in> set (tags mojito_db).
      (ck_id (hd (cocktails mojito_db)), tag_id t) \<in> set (cocktail_tags mojito_db) \<and>
      tag_type t = ''tag''} = {''Sweet'', ''Classic''}"
    by (subst set_filter [symmetric]) (auto simp: mojito_db_def)
  have s2: "tag_name ` {t \<in> set (tags mojito_db).
      (ck_id (hd (cocktails mojito_db)), tag_id t) \<in> set (cocktail_tags mojito_db) \<and>
      tag_type t = ''flavor_tag''} = {''Sweet''}"
    by (subst set_filter [symmetric]) (auto simp: mojito_db_def)
  from ser th0 [unfolded s1 s2]
  have "serialize_cocktail mojito_db (hd (cocktails mojito_db)) = Some d0 \<and>
      set (md_tags (doc_metadata d0)) = {''Sweet'', ''Classic''} \<and>
      set (md_flavor_tags (doc_metadata d0)) = {''Sweet''}"
    by (intro conjI) (elim conjE, assumption)+
  then have Z: "\<exists>d0. serialize_cocktail mojito_db (hd (cocktails mojito_db)) = Some d0 \<and>
      set (md_tags (doc_metadata d0)) = {''Sweet'', ''Classic''} \<and>
      set (md_flavor_tags (doc_metadata d0)) = {''Sweet''}"
    by - (rule exI [where x = d0], assumption)
  note th = tag_partition [of mojito_db "hd (cocktails mojito_db)" d0 empty_database mojito,
      THEN conjunct2, rule_format, OF wf]
  have tl: "set (metadata_list mc_tags mojito) = {''Sweet'', ''Classic''}"
    by (auto simp: metadata_list_def mojito_def)
  have fl: "set (metadata_list mc_flavor_tags mojito) = {''Sweet''}"
    by (simp add: metadata_list_def mojito_def)
  from th [THEN conjunct1] have A: "\<exists>d. fst (create_cocktail mojito empty_database) = Inr d \<and>
      set (md_tags (doc_metadata d)) = {''Sweet'', ''Classic''} \<and>
      set (md_flavor_tags (doc_metadata d)) = {''Sweet''}"
    unfolding tl fl .
  have "''Sweet'' \<in> set (metadata_list mc_tags mojito) \<inter> set (metadata_list mc_flavor_tags mojito)"
    unfolding tl fl by simp
  with th [THEN conjunct2] have "\<exists>t \<in> set (tags (create_db mojito empty_database)).
      \<exists>f \<in> set (tags (create_db mojito empty_database)).
        tag_name t = ''Sweet'' \<and> tag_type t = ''tag'' \<and>
        tag_name f = ''Sweet'' \<and> tag_type f = ''flavor_tag'' \<and> tag_id t \<noteq> tag_id f \<and>
        (next_id (map ck_id (cocktails empty_database)), tag_id t)
          \<in> set (cocktail_tags (create_db mojito empty_database)) \<and>
        (next_id (map ck_id (cocktails empty_database)), tag_id f)
          \<in> set (cocktail_tags (create_db mojito empty_database))"
    by (rule bspec)
  then obtain t f where "t \<in> set (tags (create_db mojito empty_database))"
    "f \<in> set (tags (create_db mojito empty_database))"
    "tag_name t = ''Sweet''" "tag_type t = ''tag''" "tag_name f = ''Sweet''"
    "tag_type f = ''flavor_tag''" "tag_id t \<noteq> tag_id f"
    by (elim bexE conjE)
  then have B: "\<exists>t \<in> set (tags (create_db mojito empty_database)).
      \<exists>f \<in> set (tags (create_db mojito empty_database)).
        tag_name t = ''Sweet'' \<and> tag_type t = ''tag'' \<and>
        tag_name f = ''Sweet'' \<and> tag_type f = ''flavor_tag'' \<and> tag_id t \<noteq> tag_id f"
    by - (rule bexI [where x = t], rule bexI [where x = f], (intro conjI; assumption), assumption+)
  from wf Z A B show ?thesis by (intro conjI)
qed

section \<open>Shared rows across requests\<close>

lemma find_append_Some: "find P xs = Some x \<Longrightarrow> find P (xs @ ys) = Some x"
  by (induction xs) (auto split: if_splits)

lemma find_prefix: "prefix xs ys \<Longrightarrow> find P xs = Some x \<Longrightarrow> find P ys = Some x"
  by (auto simp: prefix_def find_append_Some)

lemma wf_db_creates: "wf_db (fold create_db cs empty_database)"
proof (induction cs rule: rev_induct)
  case Nil
  show ?case by (simp add: wf_db_empty)
next
  case (snoc c cs)
  then show ?case by (simp add: wf_db_create)
qed

text \<open>
  Claim C6.  \<open>create_cocktail\<close> keeps every stored row of every table as it is and only
  adds rows after them, so a lookup by name (or by name and type) that finds a row before
  a request finds the same row after it.  It keeps a well-formed database well formed,
  and then every ingredient name of the input is the name of exactly one stored
  ingredient.  After any sequence of requests on the empty database no two ingredients,
  no two garnishes and no two tags of the same type share a name.
\<close>

theorem find_or_create_idempotent:
  "db_le db (create_db c db) \<and>
   (find (\<lambda>i. ing_name i = n) (ingredients db) = Some i \<longrightarrow>
      find (\<lambda>i. ing_name i = n) (ingredients (create_db c db)) = Some i) \<and>
   (find (\<lambda>g. gar_name g = n) (garnishes db) = Some g \<longrightarrow>
      find (\<lambda>g. gar_name g = n) (garnishes (create_db c db)) = Some g) \<and>
   (find (\<lambda>t. tag_name t = n \<and> tag_type t = ty) (tags db) = Some t \<longrightarrow>
      find (\<lambda>t. tag_name t = n \<and> tag_type t = ty) (tags (create_db c db)) = Some t) \<and>
   (wf_db db \<longrightarrow> wf_db (create_db c db) \<and>
      (\<forall>ing \<in> set (cc_ingredients c).
         \<exists>!i. i \<in> set (ingredients (create_db c db)) \<and> ing_name i = ic_name ing)) \<and>
   distinct (map ing_name (ingredients (fold create_db cs empty_database))) \<and>
   distinct (map gar_name (garnishes (fold create_db cs empty_database))) \<and>
   distinct (map (\<lambda>t. (tag_name t, tag_type t)) (tags (fold create_db cs empty_database)))"
proof -
  have le: "db_le db (create_db c db)" by (rule db_le_create)
  then have p: "prefix (ingredients db) (ingredients (create_db c db))"
    "prefix (garnishes db) (garnishes (create_db c db))"
    "prefix (tags db) (tags (create_db c db))"
    by (simp_all add: db_le_def)
  have uniq: "\<exists>!i. i \<in> set (ingredients (create_db c db)) \<and> ing_name i = ic_name ing"
    if wf: "wf_db db" and ing: "ing \<in> set (cc_ingredients c)" for ing
  proof -
    let ?db = "create_db c db" and ?cid = "next_id (map ck_id (cocktails db))"
    note lr = new_cocktail_ingredients [OF wf, of c]
    from ing obtain k where k: "k < length (cc_ingredients c)" "cc_ingredients c ! k = ing"
      by (auto simp: in_set_conv_nth)
    from list_all2_nthD [OF lr k(1)] k(2)
    have "line_row ?db ?cid ing (Cocktail_ingredients ?db ?cid ! k)" by simp
    then obtain a where a: "a \<in> set (ingredients ?db)" "ing_name a = ic_name ing"
      by (auto simp: line_row_def)
    from wf_db_create [OF wf, of c] have dn: "distinct (map ing_name (ingredients ?db))"
      by (simp add: wf_db_def)
    show ?thesis
    proof (rule ex1I [where a = a])
      from a show "a \<in> set (ingredients ?db) \<and> ing_name a = ic_name ing" by simp
    next
      fix b assume "b \<in> set (ingredients ?db) \<and> ing_name b = ic_name ing"
      then have b: "b \<in> set (ingredients ?db)" "ing_name b = ing_name a" using a(2) by simp_all
      from same_key_same_row [OF dn b(1) a(1) b(2)] show "b = a" .
    qed
  qed
  from wf_db_creates [of cs] have
    d: "distinct (map ing_name (ingredients (fold create_db cs empty_database)))"
      "distinct (map gar_name (garnishes (fold create_db cs empty_database)))"
      "distinct (map (\<lambda>t. (tag_name t, tag_type t)) (tags (fold create_db cs empty_database)))"
    by (simp_all add: wf_db_def)
  show ?thesis
    using le find_prefix [OF p(1)] find_prefix [OF p(2)] find_prefix [OF p(3)]
      wf_db_create [of db c] uniq d
    by (intro conjI impI ballI)
qed

theorem find_or_create_idempotent_witness:
  "find (\<lambda>i. ing_name i = ''Mint'') (ingredients mojito_db) =
     Some \<lparr>ing_id = 1, ing_name = ''Mint''\<rparr> \<and>
   find (\<lambda>g. gar_name g = ''Lime Wheel'') (garnishes mojito_db) =
     Some \<lparr>gar_id = 1, gar_name = ''Lime Wheel''\<rparr> \<and>
   find (\<lambda>t. tag_name t = ''Sweet'' \<and> tag_type t = ''flavor_tag'') (tags mojito_db) =
     Some \<lparr>tag_id = 3, tag_name = ''Sweet'', tag_type = ''flavor_tag''\<rparr> \<and>
   wf_db mojito_db \<and>
   find (\<lambda>i. ing_name i = ''Mint'') (ingredients (create_db mojito mojito_db)) =
     Some \<lparr>ing_id = 1, ing_name = ''Mint''\<rparr> \<and>
   find (\<lambda>g. gar_name g = ''Lime Wheel'') (garnishes (create_db mojito mojito_db)) =
     Some \<lparr>gar_id = 1, gar_name = ''Lime Wheel''\<rparr> \<and>
   find (\<lambda>t. tag_name t = ''Sweet'' \<and> tag_type t = ''flavor_tag'')
       (tags (create_db mojito mojito_db)) =
     Some \<lparr>tag_id = 3, tag_name = ''Sweet'', tag_type = ''flavor_tag''\<rparr> \<and>
   wf_db (create_db mojito mojito_db) \<and>
   (\<exists>!i. i \<in> set (ingredients (create_db mojito mojito_db)) \<and> ing_name i = ''Rum'')"
proof -
  have a: "find (\<lambda>i. ing_name i = ''Mint'') (ingredients mojito_db) =
     Some \<lparr>ing_id = 1, ing_name = ''Mint''\<rparr>"
    by (simp add: mojito_db_def)
  have b: "find (\<lambda>g. gar_name g = ''Lime Wheel'') (garnishes mojito_db) =
     Some \<lparr>gar_id = 1, gar_name = ''Lime Wheel''\<rparr>"
    by (simp add: mojito_db_def)
  have c: "find (\<lambda>t. tag_name t = ''Sweet'' \<and> tag_type t = ''flavor_tag'') (tags mojito_db) =
     Some \<lparr>tag_id = 3, tag_name = ''Sweet'', tag_type = ''flavor_tag''\<rparr>"
    by (simp add: mojito_db_def)
  have wf: "wf_db mojito_db"
    by (simp add: wf_db_def wf_links_def mojito_db_def)
  note th = find_or_create_idempotent [of mojito_db mojito "''Mint''"
      "\<lparr>ing_id = 1, ing_name = ''Mint''\<rparr>" "\<lparr>gar_id = 1, gar_name = ''Lime Wheel''\<rparr>"
      "''flavor_tag''" "\<lparr>tag_id = 3, tag_name = ''Sweet'', tag_type = ''flavor_tag''\<rparr>" "[]"]
  note th2 = find_or_create_idempotent [of mojito_db mojito "''Lime Wheel''"
      "\<lparr>ing_id = 1, ing_name = ''Mint''\<rparr>" "\<lparr>gar_id = 1, gar_name = ''Lime Wheel''\<rparr>"
      "''flavor_tag''" "\<lparr>tag_id = 3, tag_name = ''Sweet'', tag_type = ''flavor_tag''\<rparr>" "[]"]
  note th3 = find_or_create_idempotent [of mojito_db mojito "''Sweet''"
      "\<lparr>ing_id = 1, ing_name = ''Mint''\<rparr>" "\<lparr>gar_id = 1, gar_name = ''Lime Wheel''\<rparr>"
      "''flavor_tag''" "\<lparr>tag_id = 3, tag_name = ''Sweet'', tag_type = ''flavor_tag''\<rparr>" "[]"]
  from th [THEN conjunct2, THEN conjunct1, rule_format, OF a]
  have a': "find (\<lambda>i. ing_name i = ''Mint'') (ingredients (create_db mojito mojito_db)) =
     Some \<lparr>ing_id = 1, ing_name = ''Mint''\<rparr>" .
  from th2 [THEN conjunct2, THEN conjunct2, THEN conjunct1, rule_format, OF b]
  have b': "find (\<lambda>g. gar_name g = ''Lime Wheel'') (garnishes (create_db mojito mojito_db)) =
     Some \<lparr>gar_id = 1, gar_name = ''Lime Wheel''\<rparr>" .
  from th3 [THEN conjunct2, THEN conjunct2, THEN conjunct2, THEN conjunct1, rule_format, OF c]
  have c': "find (\<lambda>t. tag_name t = ''Sweet'' \<and> tag_type t = ''flavor_tag'')
       (tags (create_db mojito mojito_db)) =
     Some \<lparr>tag_id = 3, tag_name = ''Sweet'', tag_type = ''flavor_tag''\<rparr>" .
  note w = th [THEN conjunct2, THEN conjunct2, THEN conjunct2, THEN conjunct2, THEN conjunct1,
      rule_format, OF wf]
  have "cc_ingredients mojito ! 1 \<in> set (cc_ingredients mojito)"
    by (simp add: mojito_def)
  with w [THEN conjunct2]
  have "\<exists>!i. i \<in> set (ingredients (create_db mojito mojito_db)) \<and>
      ing_name i = ic_name (cc_ingredients mojito ! 1)"
    by (rule bspec)
  moreover have "ic_name (cc_ingredients mojito ! 1) = ''Rum''" by (simp add: mojito_def)
  ultimately have u: "\<exists>!i. i \<in> set (ingredients (create_db mojito mojito_db)) \<and>
      ing_name i = ''Rum''" by simp
  from a b c wf a' b' c' w [THEN conjunct1] u show ?thesis by (intro conjI)
qed

section \<open>The commits of create_cocktail\<close>

lemma snd_create_cocktail: "snd (create_cocktail c db) = snd (create_session c (begin_session db))"
  by (simp add: create_cocktail_def split_beta)

lemma commits_create:
  "\<exists>rest. commits (snd (create_cocktail c db)) =
     db\<lparr>cocktails := cocktails db @ [fst (create_session c (begin_session db))]\<rparr> # rest"
proof -
  have "commits (snd (add_new_cocktail c (begin_session db))) =
      [db\<lparr>cocktails := cocktails db @ [fst (create_session c (begin_session db))]\<rparr>]"
    by (simp add: snd_add_new_cocktail_begin create_session_eq)
  with commits_create_session [of c "begin_session db"] show ?thesis
    by (auto simp: prefix_def snd_create_cocktail)
qed

lemma last_commits_create:
  "last (commits (snd (create_cocktail c db))) = create_db c db"
  by (simp add: create_db_eq snd_create_cocktail create_session_eq)

text \<open>
  Claim C3, as the code has it.  \<open>create_cocktail\<close> commits more than once.  Its first
  commit makes durable the database it found plus the \<open>Cocktail\<close> row alone; every later
  commit holds the rows of the commits before it, unchanged, and possibly more; the last
  commit is the database with the complete recipe.
\<close>

theorem create_commits_in_steps:
  "commits (snd (create_cocktail c db)) \<noteq> [] \<and>
   hd (commits (snd (create_cocktail c db))) =
     db\<lparr>cocktails := cocktails db @
       [\<lparr>ck_id = next_id (map ck_id (cocktails db)), ck_title = cc_title c,
         ck_author = cc_author c, ck_description = cc_description c,
         ck_difficulty = metadata_field mc_difficulty c,
         ck_glass_type = metadata_field mc_glass_type c,
         ck_cover_image = metadata_field mc_cover_image c\<rparr>]\<rparr> \<and>
   last (commits (snd (create_cocktail c db))) = create_db c db \<and>
   sorted_wrt db_le (db # commits (snd (create_cocktail c db)))"
proof -
  from commits_create [of c db] obtain rest where
    r: "commits (snd (create_cocktail c db)) =
     db\<lparr>cocktails := cocktails db @ [fst (create_session c (begin_session db))]\<rparr> # rest" ..
  from chain_create_session [of db c]
  have "sorted_wrt db_le (db # commits (snd (create_cocktail c db)))"
    by (simp add: chain_def snd_create_cocktail)
  with r last_commits_create [of c db] show ?thesis
    by (simp add: fst_create_session)
qed

text \<open>
  Claim C3, as stated, fails.  A request for a Negroni with one ingredient line on the
  empty database commits first a state in which the recipe exists without its ingredient
  line and its step: a reader at that moment gets the document with empty lists, and
  this state stays if the request fails later.  The complete state has the line.
\<close>

theorem create_not_atomic:
  "hd (commits (snd (create_cocktail negroni empty_database))) =
     empty_database\<lparr>cocktails :=
       [\<lparr>ck_id = 1, ck_title = ''Negroni'', ck_author = None, ck_description = None,
         ck_difficulty = None, ck_glass_type = None, ck_cover_image = None\<rparr>]\<rparr> \<and>
   get_cocktail 1 (hd (commits (snd (create_cocktail negroni empty_database)))) =
     Inr \<lparr>doc_id = 1, doc_title = ''Negroni'', doc_author = None, doc_description = None,
          doc_ingredients = [], doc_instructions = [],
          doc_metadata = \<lparr>md_difficulty = None, md_glass_type = None, md_garnish = [],
            md_tags = [], md_flavor_tags = [], md_cover_image = None\<rparr>\<rparr> \<and>
   length (cocktail_ingredients (create_db negroni empty_database)) = 1 \<and>
   hd (commits (snd (create_cocktail negroni empty_database))) \<noteq>
     create_db negroni empty_database"
proof -
  let ?first = "hd (commits (snd (create_cocktail negroni empty_database)))"
  from commits_create [of negroni empty_database] obtain rest where
    "commits (snd (create_cocktail negroni empty_database)) =
       empty_database\<lparr>cocktails := cocktails empty_database @
         [fst (create_session negroni (begin_session empty_database))]\<rparr> # rest" ..
  then have h: "?first =
     empty_database\<lparr>cocktails :=
       [\<lparr>ck_id = 1, ck_title = ''Negroni'', ck_author = None, ck_description = None,
         ck_difficulty = None, ck_glass_type = None, ck_cover_image = None\<rparr>]\<rparr>"
    by (simp add: fst_create_session negroni_def empty_database_def next_id_def
        metadata_field_def)
  have g: "get_cocktail 1 ?first =
     Inr \<lparr>doc_id = 1, doc_title = ''Negroni'', doc_author = None, doc_description = None,
          doc_ingredients = [], doc_instructions = [],
          doc_metadata = \<lparr>md_difficulty = None, md_glass_type = None, md_garnish = [],
            md_tags = [], md_flavor_tags = [], md_cover_image = None\<rparr>\<rparr>"
    unfolding h
    by (simp add: get_cocktail_def serialize_cocktail_def empty_database_def
        Cocktail_ingredients_def Cocktail_instructions_def Cocktail_garnishes_def
        Cocktail_tags_def secondary_join_def)
  have wf: "wf_db empty_database" by (rule wf_db_empty)
  from create_session_result(4) [OF wf, of negroni] obtain rows where
    rows: "cocktail_ingredients (create_db negroni empty_database) =
        cocktail_ingredients empty_database @ rows"
    and lr: "list_all2 (line_row (create_db negroni empty_database)
        (next_id (map ck_id (cocktails empty_database)))) (cc_ingredients negroni) rows"
    unfolding create_db_eq by blast
  from list_all2_lengthD [OF lr] have "length rows = 1" by (simp add: negroni_def)
  with rows have len: "length (cocktail_ingredients (create_db negroni empty_database)) = 1"
    by (simp add: empty_database_def)
  have "cocktail_ingredients ?first = []" unfolding h by (simp add: empty_database_def)
  with len have ne: "?first \<noteq> create_db negroni empty_database" by auto
  from h g len ne show ?thesis by (intro conjI)
qed

section \<open>Validation of the request body\<close>

lemma those_None_iff: "those xs = None \<longleftrightarrow> None \<in> set xs"
  by (induction xs) (auto split: option.splits)

lemma validate_IngredientCreate_None:
  "validate_IngredientCreate r = None \<longleftrightarrow> ri_name r = None"
  by (simp add: validate_IngredientCreate_def split: option.splits)

lemma validate_CocktailCreate_None:
  "validate_CocktailCreate r = None \<longleftrightarrow>
     rc_title r = None \<or> rc_ingredients r = None \<or> rc_instructions r = None \<or>
     (\<exists>ings. rc_ingredients r = Some ings \<and> (\<exists>i \<in> set ings. ri_name i = None))"
proof (cases "rc_title r")
  case None
  then show ?thesis by (simp add: validate_CocktailCreate_def)
next
  case t: (Some title)
  show ?thesis
  proof (cases "rc_ingredients r")
    case None
    with t show ?thesis by (simp add: validate_CocktailCreate_def)
  next
    case i: (Some ings)
    show ?thesis
    proof (cases "rc_instructions r")
      case None
      with t i show ?thesis by (simp add: validate_CocktailCreate_def)
    next
      case n: (Some instrs)
      have "None \<in> set (map validate_IngredientCreate ings) \<longleftrightarrow>
          (\<exists>i \<in> set ings. validate_IngredientCreate i = None)"
        by force
      then have th: "those (map validate_IngredientCreate ings) = None \<longleftrightarrow>
          (\<exists>i \<in> set ings. ri_name i = None)"
        by (simp only: those_None_iff validate_IngredientCreate_None)
      show ?thesis
      proof (cases "those (map validate_IngredientCreate ings)")
        case None
        with th have "\<exists>i \<in> set ings. ri_name i = None" by simp
        with None t i n show ?thesis by (simp add: validate_CocktailCreate_def)
      next
        case (Some ings')
        with th have "\<not> (\<exists>i \<in> set ings. ri_name i = None)" by simp
        with Some t i n show ?thesis by (simp add: validate_CocktailCreate_def)
      qed
    qed
  qed
qed

text \<open>
  Claim C8, as the code has it.  A request document without title, without ingredients
  list, without instructions list, or with an ingredient line without name is answered
  with a validation error; \<open>create_cocktail\<close> does not run and the session of the
  request commits nothing.  Every other document is accepted, whatever its title, and
  \<open>create_cocktail\<close> runs on it with that title.
\<close>

theorem malformed_request_rejected:
  "(rc_title r = None \<or> rc_ingredients r = None \<or> rc_instructions r = None \<or>
      (\<exists>ings. rc_ingredients r = Some ings \<and> (\<exists>i \<in> set ings. ri_name i = None)) \<longrightarrow>
    post_cocktails r db = (Inl RequestValidationError, begin_session db) \<and>
    commits (snd (post_cocktails r db)) = [] \<and>
    durable db (snd (post_cocktails r db)) = db) \<and>
   (\<not> (rc_title r = None \<or> rc_ingredients r = None \<or> rc_instructions r = None \<or>
      (\<exists>ings. rc_ingredients r = Some ings \<and> (\<exists>i \<in> set ings. ri_name i = None))) \<longrightarrow>
    (\<exists>cocktail. validate_CocktailCreate r = Some cocktail \<and>
       Some (cc_title cocktail) = rc_title r \<and>
       post_cocktails r db = create_cocktail cocktail db))"
proof (intro conjI impI)
  assume "rc_title r = None \<or> rc_ingredients r = None \<or> rc_instructions r = None \<or>
      (\<exists>ings. rc_ingredients r = Some ings \<and> (\<exists>i \<in> set ings. ri_name i = None))"
  then have v: "validate_CocktailCreate r = None"
    by (simp only: validate_CocktailCreate_None)
  then show "post_cocktails r db = (Inl RequestValidationError, begin_session db)"
    by (simp add: post_cocktails_def)
  from v show "commits (snd (post_cocktails r db)) = []"
    by (simp add: post_cocktails_def begin_session_def)
  from v show "durable db (snd (post_cocktails r db)) = db"
    by (simp add: post_cocktails_def begin_session_def durable_def)
next
  assume "\<not> (rc_title r = None \<or> rc_ingredients r = None \<or> rc_instructions r = None \<or>
      (\<exists>ings. rc_ingredients r = Some ings \<and> (\<exists>i \<in> set ings. ri_name i = None)))"
  then have "validate_CocktailCreate r \<noteq> None"
    by (simp only: validate_CocktailCreate_None not_False_eq_True)
  then obtain cocktail where c: "validate_CocktailCreate r = Some cocktail" by auto
  then have "Some (cc_title cocktail) = rc_title r"
    by (auto simp: validate_CocktailCreate_def split: option.splits)
  moreover from c have "post_cocktails r db = create_cocktail cocktail db"
    by (simp add: post_cocktails_def)
  ultimately show "\<exists>cocktail. validate_CocktailCreate r = Some cocktail \<and>
       Some (cc_title cocktail) = rc_title r \<and>
       post_cocktails r db = create_cocktail cocktail db"
    using c by blast
qed

theorem malformed_request_rejected_witness:
  "rc_title (untitled_request\<lparr>rc_title := None\<rparr>) = None \<and>
   post_cocktails (untitled_request\<lparr>rc_title := None\<rparr>) mojito_db =
     (Inl RequestValidationError, begin_session mojito_db) \<and>
   durable mojito_db (snd (post_cocktails (untitled_request\<lparr>rc_title := None\<rparr>) mojito_db)) =
     mojito_db \<and>
   \<not> (rc_title untitled_request = None \<or> rc_ingredients untitled_request = None \<or>
       rc_instructions untitled_request = None \<or>
       (\<exists>ings. rc_ingredients untitled_request = Some ings \<and>
          (\<exists>i \<in> set ings. ri_name i = None))) \<and>
   (\<exists>cocktail. validate_CocktailCreate untitled_request = Some cocktail \<and>
      cc_title cocktail = [] \<and>
      post_cocktails untitled_request mojito_db = create_cocktail cocktail mojito_db)"
proof -
  let ?r = "untitled_request\<lparr>rc_title := None\<rparr>"
  have t: "rc_title ?r = None" by simp
  note th = malformed_request_rejected [of ?r mojito_db, THEN conjunct1, rule_format,
      OF disjI1, OF t]
  have ok: "\<not> (rc_title untitled_request = None \<or> rc_ingredients untitled_request = None \<or>
       rc_instructions untitled_request = None \<or>
       (\<exists>ings. rc_ingredients untitled_request = Some ings \<and>
          (\<exists>i \<in> set ings. ri_name i = None)))"
    by (simp add: untitled_request_def)
  from malformed_request_rejected [of untitled_request mojito_db, THEN conjunct2, rule_format,
      OF ok]
  obtain cocktail where c: "validate_CocktailCreate untitled_request = Some cocktail"
    "Some (cc_title cocktail) = rc_title untitled_request"
    "post_cocktails untitled_request mojito_db = create_cocktail cocktail mojito_db"
    by (elim exE conjE)
  from c(2) have "cc_title cocktail = []" by (simp add: untitled_request_def)
  with c(1,3) have "validate_CocktailCreate untitled_request = Some cocktail \<and>
      cc_title cocktail = [] \<and>
      post_cocktails untitled_request mojito_db = create_cocktail cocktail mojito_db"
    by (intro conjI)
  then have e: "\<exists>cocktail. validate_CocktailCreate untitled_request = Some cocktail \<and>
      cc_title cocktail = [] \<and>
      post_cocktails untitled_request mojito_db = create_cocktail cocktail mojito_db"
    by - (rule exI [where x = cocktail], assumption)
  from t th [THEN conjunct1] th [THEN conjunct2, THEN conjunct2] ok e
  show ?thesis by (intro conjI)
qed

text \<open>
  Claim C8, as stated, fails for the empty title: the request with title \<open>""\<close> is
  accepted, and on the empty database it stores a \<open>Cocktail\<close> row with the empty title.
\<close>

theorem empty_title_accepted:
  "validate_CocktailCreate untitled_request =
     Some \<lparr>cc_title = [], cc_author = None, cc_description = None, cc_ingredients = [],
           cc_instructions = [], cc_metadata = None\<rparr> \<and>
   fst (post_cocktails untitled_request empty_database) =
     Inr \<lparr>doc_id = 1, doc_title = [], doc_author = None, doc_description = None,
          doc_ingredients = [], doc_instructions = [],
          doc_metadata = \<lparr>md_difficulty = None, md_glass_type = None, md_garnish = [],
            md_tags = [], md_flavor_tags = [], md_cover_image = None\<rparr>\<rparr> \<and>
   durable empty_database (snd (post_cocktails untitled_request empty_database)) =
     empty_database\<lparr>cocktails :=
       [\<lparr>ck_id = 1, ck_title = [], ck_author = None, ck_description = None,
         ck_difficulty = None, ck_glass_type = None, ck_cover_image = None\<rparr>]\<rparr>"
proof -
  let ?c = "\<lparr>cc_title = [], cc_author = None, cc_description = None, cc_ingredients = [],
           cc_instructions = [], cc_metadata = None\<rparr>"
  have v: "validate_CocktailCreate untitled_request = Some ?c"
    by (simp add: validate_CocktailCreate_def untitled_request_def)
  then have p: "post_cocktails untitled_request empty_database = create_cocktail ?c empty_database"
    by (simp add: post_cocktails_def)
  have s: "snd (create_session ?c (begin_session empty_database)) =
      \<lparr>txn = empty_database\<lparr>cocktails :=
         [\<lparr>ck_id = 1, ck_title = [], ck_author = None, ck_description = None,
           ck_difficulty = None, ck_glass_type = None, ck_cover_image = None\<rparr>]\<rparr>,
       commits = [empty_database\<lparr>cocktails :=
         [\<lparr>ck_id = 1, ck_title = [], ck_author = None, ck_description = None,
           ck_difficulty = None, ck_glass_type = None, ck_cover_image = None\<rparr>]\<rparr>,
         empty_database\<lparr>cocktails :=
         [\<lparr>ck_id = 1, ck_title = [], ck_author = None, ck_description = None,
           ck_difficulty = None, ck_glass_type = None, ck_cover_image = None\<rparr>]\<rparr>],
       obj_id = 1, obj_garnishes = expired, obj_tags = expired\<rparr>"
    by (simp only: create_session_eq snd_conv snd_add_new_cocktail_begin fst_add_new_cocktail)
      (simp add: begin_session_def handle_ingredients_def handle_instructions_def
        handle_garnishes_def handle_tags_def metadata_list_def metadata_field_def commit_def
        flush_def coll_added_def expired_def empty_database_def next_id_def Let_def)
  have d: "durable empty_database (snd (post_cocktails untitled_request empty_database)) =
     empty_database\<lparr>cocktails :=
       [\<lparr>ck_id = 1, ck_title = [], ck_author = None, ck_description = None,
         ck_difficulty = None, ck_glass_type = None, ck_cover_image = None\<rparr>]\<rparr>"
    unfolding p snd_create_cocktail s by (simp add: durable_def)
  have f: "fst (post_cocktails untitled_request empty_database) =
     Inr \<lparr>doc_id = 1, doc_title = [], doc_author = None, doc_description = None,
          doc_ingredients = [], doc_instructions = [],
          doc_metadata = \<lparr>md_difficulty = None, md_glass_type = None, md_garnish = [],
            md_tags = [], md_flavor_tags = [], md_cover_image = None\<rparr>\<rparr>"
    unfolding p fst_create_cocktail create_db_eq s
    by (simp add: fst_create_session serialize_cocktail_def empty_database_def next_id_def
        metadata_field_def Cocktail_ingredients_def Cocktail_instructions_def
        Cocktail_garnishes_def Cocktail_tags_def secondary_join_def)
  from v f d show ?thesis by (intro conjI)
qed

section \<open>The role of the flush before each lookup\<close>

text \<open>
  Two appends of the same garnish with no flush in between write two association rows;
  with the flush that the lookup of the source's loop performs before the second append,
  only the first append writes a row.
\<close>

lemma flush_two_appends:
  assumes "clean s" and "g \<notin> set (coll_load (Cocktail_garnishes (txn s) (obj_id s)) (obj_garnishes s))"
  shows "cocktail_garnishes (txn (flush (garnishes_append g (garnishes_append g s)))) =
           cocktail_garnishes (txn s) @ [(obj_id s, gar_id g), (obj_id s, gar_id g)]"
    and "cocktail_garnishes (txn (flush (garnishes_append g (flush (garnishes_append g s))))) =
           cocktail_garnishes (txn s) @ [(obj_id s, gar_id g)]"
proof -
  from assms show "cocktail_garnishes (txn (flush (garnishes_append g (garnishes_append g s)))) =
           cocktail_garnishes (txn s) @ [(obj_id s, gar_id g), (obj_id s, gar_id g)]"
    by (simp add: flush_def garnishes_append_def coll_append_def coll_added_def coll_load_def
        clean_def Let_def split: option.splits)
  from assms show "cocktail_garnishes (txn (flush (garnishes_append g (flush (garnishes_append g s))))) =
           cocktail_garnishes (txn s) @ [(obj_id s, gar_id g)]"
    by (simp add: flush_def garnishes_append_def coll_append_def coll_added_def coll_load_def
        clean_def Let_def split: option.splits)
qed

end
